theory Spec2Isabelle
  imports Main
begin

section \<open>JavaScript strings\<close>

text \<open>
  A JavaScript string is a sequence of UTF-16 code units. The model uses \<open>string\<close>
  (a list of 8-bit characters), so it covers texts whose code units are below 256;
  lengths and columns count characters, as \<open>String.length\<close> and \<open>match.index\<close> do.
  In that range the white space of \<open>String.prototype.trim\<close> and of the regular
  expression class \<open>\s\<close> is TAB, LF, VT, FF, CR, SPACE and NBSP.
\<close>

definition isSpace :: "char \<Rightarrow> bool" where
  "isSpace c = (c \<in> set [CHR 0x09, CHR 0x0A, CHR 0x0B, CHR 0x0C, CHR 0x0D, CHR 0x20, CHR 0xA0])"

definition upperChars :: string where
  "upperChars = ''ABCDEFGHIJKLMNOPQRSTUVWXYZ''"

definition wordChars :: string where
  "wordChars = ''abcdefghijklmnopqrstuvwxyzABCDEFGHIJKLMNOPQRSTUVWXYZ0123456789_''"

definition isWord :: "char \<Rightarrow> bool" where
  "isWord c = (c \<in> set wordChars)"

text \<open>\<open>s.trim()\<close>\<close>

definition trim :: "string \<Rightarrow> string" where
  "trim s = rev (dropWhile isSpace (rev (dropWhile isSpace s)))"

text \<open>\<open>s.startsWith(p)\<close>\<close>

definition startsWith :: "string \<Rightarrow> string \<Rightarrow> bool" where
  "startsWith p s = (take (length p) s = p)"

text \<open>\<open>s.includes(p)\<close>\<close>

fun includesStr :: "string \<Rightarrow> string \<Rightarrow> bool" where
  "includesStr p [] = (p = [])"
| "includesStr p (c # s) = (startsWith p (c # s) \<or> includesStr p s)"

text \<open>
  \<open>s.split(sep)\<close> for a separator of one character (the source splits on
  \<open>"\n"\<close> and on \<open>","\<close>): the empty string gives one empty piece.
\<close>

fun splitOn :: "char \<Rightarrow> string \<Rightarrow> string list" where
  "splitOn sep [] = [[]]"
| "splitOn sep (c # s) =
     (if c = sep then [] # splitOn sep s
      else (case splitOn sep s of [] \<Rightarrow> [[c]] | p # ps \<Rightarrow> (c # p) # ps))"

section \<open>Regular expressions\<close>

text \<open>
  The fragment of JavaScript's regular expressions that the extension uses: literals,
  character classes, greedy and lazy repetition of a character class, sequence,
  alternation, capture groups, the word boundary \<open>\b\<close> and the start anchor \<open>^\<close>.
  No pattern of the source repeats anything but a single character class, and none has
  a back reference or a look-around.
\<close>

datatype cls =
    Space             \<comment> \<open>\<open>\s\<close>\<close>
  | Word              \<comment> \<open>\<open>\w\<close>\<close>
  | Dot               \<comment> \<open>\<open>.\<close> without the \<open>s\<close> flag\<close>
  | OneOf string      \<comment> \<open>\<open>[...]\<close>, ranges written out\<close>
  | NoneOf string     \<comment> \<open>\<open>[^...]\<close>\<close>

fun inCls :: "cls \<Rightarrow> char \<Rightarrow> bool" where
  "inCls Space c = isSpace c"
| "inCls Word c = isWord c"
| "inCls Dot c = (c \<notin> set [CHR 0x0A, CHR 0x0D])"
| "inCls (OneOf cs) c = (c \<in> set cs)"
| "inCls (NoneOf cs) c = (c \<notin> set cs)"

datatype re =
    Lit string        \<comment> \<open>a run of literal characters\<close>
  | Cls cls           \<comment> \<open>one character of a class\<close>
  | Star cls          \<comment> \<open>\<open>c*\<close>, greedy\<close>
  | Plus cls          \<comment> \<open>\<open>c+\<close>, greedy\<close>
  | LazyStar cls      \<comment> \<open>\<open>c*?\<close>\<close>
  | Seq re re
  | Alt re re
  | Grp nat re        \<comment> \<open>capture group number \<open>n\<close>\<close>
  | WordB             \<comment> \<open>\<open>\b\<close>\<close>
  | Bol               \<comment> \<open>\<open>^\<close> without the \<open>m\<close> flag\<close>

text \<open>
  A matcher state is the input split at the current position: the characters before it
  (nearest first), the characters after it, and the captures made so far (latest first).
\<close>

type_synonym mstate = "string \<times> string \<times> (nat \<times> string) list"

fun advance :: "nat \<Rightarrow> mstate \<Rightarrow> mstate" where
  "advance n (b, r, caps) = (rev (take n r) @ b, drop n r, caps)"

definition run :: "cls \<Rightarrow> string \<Rightarrow> nat" where
  "run k r = length (takeWhile (inCls k) r)"

text \<open>
  Is the nearest character a word character? Applied to the characters before the
  position it looks at the previous character, applied to those after it at the next;
  beyond either end of the input there is none.
\<close>

definition wordHead :: "string \<Rightarrow> bool" where
  "wordHead s = (case s of [] \<Rightarrow> False | c # _ \<Rightarrow> isWord c)"

text \<open>
  \<open>matches e st\<close> lists every way \<open>e\<close> can match at the position of \<open>st\<close>, in the
  order in which the backtracking matcher of the language tries them: the left
  alternative before the right one, the longest repetition first for a greedy
  quantifier and the shortest first for a lazy one. The matcher's answer is the head of
  the list.
\<close>

fun matches :: "re \<Rightarrow> mstate \<Rightarrow> mstate list" where
  "matches (Lit l) (b, r, caps) =
     (if startsWith l r then [advance (length l) (b, r, caps)] else [])"
| "matches (Cls k) (b, r, caps) =
     (case r of [] \<Rightarrow> [] | c # r' \<Rightarrow> if inCls k c then [(c # b, r', caps)] else [])"
| "matches (Star k) st =
     (case st of (b, r, caps) \<Rightarrow> map (\<lambda>n. advance n st) (rev [0 ..< Suc (run k r)]))"
| "matches (Plus k) st =
     (case st of (b, r, caps) \<Rightarrow> map (\<lambda>n. advance n st) (rev [1 ..< Suc (run k r)]))"
| "matches (LazyStar k) st =
     (case st of (b, r, caps) \<Rightarrow> map (\<lambda>n. advance n st) [0 ..< Suc (run k r)])"
| "matches (Seq x y) st = concat (map (matches y) (matches x st))"
| "matches (Alt x y) st = matches x st @ matches y st"
| "matches (Grp i x) (b, r, caps) =
     map (\<lambda>(b', r', caps'). (b', r', (i, take (length r - length r') r) # caps'))
       (matches x (b, r, caps))"
| "matches WordB (b, r, caps) =
     (if wordHead b = wordHead r then [] else [(b, r, caps)])"
| "matches Bol (b, r, caps) = (if b = [] then [(b, r, caps)] else [])"

text \<open>
  The result of a successful match: \<open>index\<close> is where it starts, \<open>groups\<close> holds the
  captures, and \<open>before\<close>/\<open>after\<close> split the input at its end (so the length of
  \<open>before\<close> is the \<open>lastIndex\<close> a global expression is left with).
\<close>

record matchResult =
  index :: nat
  before :: string
  after :: string
  groups :: "(nat \<times> string) list"

definition matchAt :: "re \<Rightarrow> string \<Rightarrow> string \<Rightarrow> matchResult option" where
  "matchAt e b r =
     (case matches e (b, r, []) of
        [] \<Rightarrow> None
      | (b', r', caps) # _ \<Rightarrow>
          Some \<lparr>index = length b, before = b', after = r', groups = caps\<rparr>)"

text \<open>
  \<open>search e b r\<close>: the leftmost match at or after the position that splits the input
  into \<open>b\<close> (reversed) and \<open>r\<close>; what \<open>e.exec(s)\<close> does from \<open>lastIndex\<close>, and
  \<open>s.match(e)\<close> and \<open>e.test(s)\<close> from 0.
\<close>

fun search :: "re \<Rightarrow> string \<Rightarrow> string \<Rightarrow> matchResult option" where
  "search e b [] = matchAt e b []"
| "search e b (c # r) =
     (case matchAt e b (c # r) of None \<Rightarrow> search e (c # b) r | Some m \<Rightarrow> Some m)"

definition match :: "re \<Rightarrow> string \<Rightarrow> matchResult option" where
  "match e s = search e [] s"

definition test :: "re \<Rightarrow> string \<Rightarrow> bool" where
  "test e s = (match e s \<noteq> None)"

text \<open>\<open>m[i]\<close>: the text of group \<open>i\<close>, or \<open>undefined\<close> (\<open>None\<close>).\<close>

definition group :: "matchResult \<Rightarrow> nat \<Rightarrow> string option" where
  "group m i = map_of (groups m) i"

text \<open>A value used as a condition: \<open>undefined\<close> and the empty string are falsy.\<close>

definition truthy :: "string option \<Rightarrow> bool" where
  "truthy v = (case v of None \<Rightarrow> False | Some s \<Rightarrow> s \<noteq> [])"

text \<open>Sequences and alternations of several parts, nested to the right.\<close>

fun seq :: "re list \<Rightarrow> re" where
  "seq [] = Lit []"
| "seq [x] = x"
| "seq (x # xs) = Seq x (seq xs)"

fun alt :: "re list \<Rightarrow> re" where
  "alt [] = Lit []"
| "alt [x] = x"
| "alt (x # xs) = Alt x (alt xs)"

text \<open>
  \<open>s.split(e)\<close> for a regular expression \<open>e\<close> without capture groups, after the
  language's definition: at each position \<open>q\<close> the expression is tried at \<open>q\<close> only;
  a match that ends where the current piece starts (\<open>e = p\<close>) is passed over, any
  other match closes the piece and the scan goes on from its end. \<open>piece\<close> holds the
  characters of the current piece, latest first.
\<close>

function splitLoop :: "re \<Rightarrow> string \<Rightarrow> string \<Rightarrow> string \<Rightarrow> string list" where
  "splitLoop e piece b [] = [rev piece]"
| "splitLoop e piece b (c # r) =
     (case matchAt e b (c # r) of
        None \<Rightarrow> splitLoop e (c # piece) (c # b) r
      | Some m \<Rightarrow>
          if length (before m) = length b - length piece
          then splitLoop e (c # piece) (c # b) r
          else rev piece # splitLoop e [] (before m) (after m))"
  by pat_completeness auto

definition splitRe :: "re \<Rightarrow> string \<Rightarrow> string list" where
  "splitRe e s =
     (if s = [] then (case matchAt e [] [] of None \<Rightarrow> [[]] | Some _ \<Rightarrow> [])
      else splitLoop e [] [] s)"

section \<open>The editor's data\<close>

record position =
  pLine :: nat
  pCharacter :: nat

record vsRange =
  rStart :: position
  rEnd :: position

datatype severity = Error | Warning | Information | Hint

record diagnostic =
  dRange :: vsRange
  dMessage :: string
  dSeverity :: severity
  dCode :: string
  dSource :: string

record document =
  languageId :: string
  getText :: string

text \<open>The settings \<open>checkDocument\<close> reads from \<open>mongodbSchemaChecker\<close>.\<close>

record config =
  skipLargeFiles :: bool
  maxFileSize :: nat
  modelMethods :: "string list"

abbreviation (input) sq :: char where "sq \<equiv> CHR 0x27"
abbreviation (input) dq :: char where "dq \<equiv> CHR 0x22"
abbreviation (input) newline :: char where "newline \<equiv> CHR 0x0A"

definition defaultMethods :: "string list" where
  "defaultMethods =
    [''find'', ''findOne'', ''findById'', ''findOneAndUpdate'', ''findByIdAndUpdate'',
     ''findOneAndDelete'', ''findByIdAndDelete'', ''findOneAndRemove'',
     ''findByIdAndRemove'', ''findOneAndReplace'', ''where'', ''exists'', ''distinct'',
     ''create'', ''insertMany'', ''save'',
     ''update'', ''updateOne'', ''updateMany'', ''replaceOne'',
     ''remove'', ''deleteOne'', ''deleteMany'',
     ''count'', ''countDocuments'', ''estimatedDocumentCount'',
     ''aggregate'', ''mapReduce'', ''populate'',
     ''validate'', ''validateSync'',
     ''createIndexes'', ''ensureIndexes'', ''syncIndexes'', ''listIndexes'',
     ''watch'', ''bulkWrite'', ''hydrate'', ''init'', ''startSession'',
     ''translateAliases'',
     ''discriminator'', ''on'', ''once'', ''emit'']"

definition defaultConfig :: config where
  "defaultConfig =
     \<lparr>skipLargeFiles = True, maxFileSize = 100000, modelMethods = defaultMethods\<rparr>"

section \<open>getImportedModels\<close>

text \<open>
  \<open>/import\s+(?:(\w+)|{([^}]+)}|\*\s+as\s+(\w+))\s+from\s+['"]/\<close>
\<close>

definition es6ImportRe :: re where
  "es6ImportRe =
     seq [Lit ''import'', Plus Space,
          alt [Grp 1 (Plus Word),
               seq [Lit ''{'', Grp 2 (Plus (NoneOf ''}'')), Lit ''}''],
               seq [Lit ''*'', Plus Space, Lit ''as'', Plus Space, Grp 3 (Plus Word)]],
          Plus Space, Lit ''from'', Plus Space, Cls (OneOf [sq, dq])]"

text \<open>
  \<open>/(?:const|let|var)\s+(?:(\w+)|{([^}]+)})\s*=\s*require\s*\(/\<close>
\<close>

definition requireRe :: re where
  "requireRe =
     seq [alt [Lit ''const'', Lit ''let'', Lit ''var''], Plus Space,
          alt [Grp 1 (Plus Word),
               seq [Lit ''{'', Grp 2 (Plus (NoneOf ''}'')), Lit ''}'']],
          Star Space, Lit ''='', Star Space, Lit ''require'', Star Space, Lit ''('']"

text \<open>\<open>/\s+as\s+/\<close> and \<open>/\s*:\s*/\<close>\<close>

definition asRe :: re where
  "asRe = seq [Plus Space, Lit ''as'', Plus Space]"

definition colonRe :: re where
  "colonRe = seq [Star Space, Lit '':'', Star Space]"

text \<open>
  \<open>name.trim().split(sep)[0].trim()\<close>. The array is never empty here: \<open>split\<close>
  returns no piece only for the empty string and a separator that matches it, and neither
  separator does (lemma \<open>leftName_defined\<close>).
\<close>

definition leftName :: "re \<Rightarrow> string \<Rightarrow> string" where
  "leftName sep name = trim (hd (splitRe sep (trim name)))"

text \<open>\<open>if (v) { ... }\<close> for a capture \<open>v\<close>: the names to add when it is truthy.\<close>

definition whenTruthy :: "string option \<Rightarrow> (string \<Rightarrow> string list) \<Rightarrow> string list" where
  "whenTruthy v f = (case v of None \<Rightarrow> [] | Some s \<Rightarrow> if s = [] then [] else f s)"

text \<open>The names one line adds through the ES6 pattern, in the order of the adds.\<close>

definition es6Names :: "string \<Rightarrow> string list" where
  "es6Names line =
     (case match es6ImportRe line of
        None \<Rightarrow> []
      | Some m \<Rightarrow>
          whenTruthy (group m 1) (\<lambda>n. [n]) @
          whenTruthy (group m 2) (\<lambda>g. map (leftName asRe) (splitOn CHR '','' g)) @
          whenTruthy (group m 3) (\<lambda>n. [n]))"

text \<open>The names one line adds through the CommonJS pattern.\<close>

definition requireNames :: "string \<Rightarrow> string list" where
  "requireNames line =
     (case match requireRe line of
        None \<Rightarrow> []
      | Some m \<Rightarrow>
          whenTruthy (group m 1) (\<lambda>n. [n]) @
          whenTruthy (group m 2) (\<lambda>g. map (leftName colonRe) (splitOn CHR '','' g)))"

text \<open>A \<open>Set<string>\<close> as the list of its members in insertion order.\<close>

definition setAdd :: "string \<Rightarrow> string list \<Rightarrow> string list" where
  "setAdd x xs = (if x \<in> set xs then xs else xs @ [x])"

definition addAll :: "string list \<Rightarrow> string list \<Rightarrow> string list" where
  "addAll names xs = foldl (\<lambda>acc n. setAdd n acc) xs names"

text \<open>
  The loop over the lines: \<open>inMultiLineComment\<close> and \<open>importedModels\<close> are the two
  variables it updates.
\<close>

fun importLoop :: "bool \<Rightarrow> string list \<Rightarrow> string list \<Rightarrow> string list" where
  "importLoop inMultiLineComment importedModels [] = importedModels"
| "importLoop inMultiLineComment importedModels (line # lines) =
     (let trimmedLine = trim line;
          inComment = (if includesStr ''/*'' trimmedLine then True else inMultiLineComment)
      in if inComment
         then importLoop (if includesStr ''*/'' trimmedLine then False else inComment)
                importedModels lines
         else if startsWith ''//'' trimmedLine
         then importLoop inComment importedModels lines
         else importLoop inComment
                (addAll (requireNames line) (addAll (es6Names line) importedModels)) lines)"

definition getImportedModels :: "string \<Rightarrow> string list" where
  "getImportedModels text = importLoop False [] (splitOn newline text)"

section \<open>findModelMethodUsages\<close>

record usage =
  uRange :: vsRange
  uModelName :: string
  uMethodName :: string

text \<open>
  \<open>new RegExp(`\\b([A-Z][a-zA-Z0-9_]*)\\.(${methodsPattern})\\b`, "g")\<close> with
  \<open>methodsPattern = modelMethods.join("|")\<close>. The entries are read as plain names (as
  all the documented ones are): each is a literal alternative. The empty list joins to
  the empty pattern, which matches the empty string.
\<close>

definition modelMethodRegex :: "string list \<Rightarrow> re" where
  "modelMethodRegex ms =
     seq [WordB, Grp 1 (Seq (Cls (OneOf upperChars)) (Star (OneOf wordChars))),
          Lit ''.'', Grp 2 (alt (map Lit ms)), WordB]"

text \<open>\<open>/^\s*(import|const|let|var)\s+.*?=\s*require/\<close> and \<open>/^\s*import\s+/\<close>\<close>

definition skipRequireRe :: re where
  "skipRequireRe =
     seq [Bol, Star Space, Grp 1 (alt [Lit ''import'', Lit ''const'', Lit ''let'', Lit ''var'']),
          Plus Space, LazyStar Dot, Lit ''='', Star Space, Lit ''require'']"

definition skipImportRe :: re where
  "skipImportRe = seq [Bol, Star Space, Lit ''import'', Plus Space]"

text \<open>
  The usage pushed for one match \<open>m\<close> on line \<open>lineIndex\<close>. Both groups take part in
  every match of the expression, so \<open>match[1]\<close> and \<open>match[2]\<close> are strings
  (lemma \<open>usage_groups_defined\<close>).
\<close>

definition usageOf :: "nat \<Rightarrow> matchResult \<Rightarrow> usage" where
  "usageOf lineIndex m =
     (let modelName = the (group m 1);
          methodName = the (group m 2);
          startPos = \<lparr>pLine = lineIndex, pCharacter = index m\<rparr>;
          endPos = \<lparr>pLine = lineIndex, pCharacter = index m + length modelName\<rparr>
      in \<lparr>uRange = \<lparr>rStart = startPos, rEnd = endPos\<rparr>,
          uModelName = modelName, uMethodName = methodName\<rparr>)"

text \<open>
  \<open>while ((match = modelMethodRegex.exec(line)) !== null)\<close>: each round searches from
  where the previous match ended (\<open>lastIndex\<close>). The loop ends because a match of this
  expression is never empty.
\<close>

function lineUsages :: "string list \<Rightarrow> nat \<Rightarrow> string \<Rightarrow> string \<Rightarrow> usage list" where
  "lineUsages ms lineIndex b r =
     (case search (modelMethodRegex ms) b r of
        None \<Rightarrow> []
      | Some m \<Rightarrow> usageOf lineIndex m # lineUsages ms lineIndex (before m) (after m))"
  by pat_completeness auto

fun usageLoop :: "string list \<Rightarrow> nat \<Rightarrow> bool \<Rightarrow> string list \<Rightarrow> usage list" where
  "usageLoop ms lineIndex inMultiLineComment [] = []"
| "usageLoop ms lineIndex inMultiLineComment (line # lines) =
     (let trimmedLine = trim line;
          inComment = (if includesStr ''/*'' trimmedLine then True else inMultiLineComment)
      in if inComment
         then usageLoop ms (Suc lineIndex)
                (if includesStr ''*/'' trimmedLine then False else inComment) lines
         else if startsWith ''//'' trimmedLine
         then usageLoop ms (Suc lineIndex) inComment lines
         else if test skipRequireRe line \<or> test skipImportRe line
         then usageLoop ms (Suc lineIndex) inComment lines
         else lineUsages ms lineIndex [] line @ usageLoop ms (Suc lineIndex) inComment lines)"

text \<open>The third parameter of the source, \<open>document\<close>, is not used by it.\<close>

definition findModelMethodUsages :: "string \<Rightarrow> string list \<Rightarrow> usage list" where
  "findModelMethodUsages text ms = usageLoop ms 0 False (splitOn newline text)"

text \<open>
  \<open>findModelMethodUsages\<close> of the earlier version of the extension
  (\<open>src/extension.ts\<close>): the same expression and the same loop over its matches, no
  comment state, and a test \<open>/^\s*(\/\/|\/\*|\*)/\<close> for comment lines after the test for
  import lines.
\<close>

definition commentLineRe :: re where
  "commentLineRe = seq [Bol, Star Space, Grp 1 (alt [Lit ''//'', Lit ''/*'', Lit ''*''])]"

fun usageLoopEarlier :: "string list \<Rightarrow> nat \<Rightarrow> string list \<Rightarrow> usage list" where
  "usageLoopEarlier ms lineIndex [] = []"
| "usageLoopEarlier ms lineIndex (line # lines) =
     (if test skipRequireRe line \<or> test skipImportRe line
      then usageLoopEarlier ms (Suc lineIndex) lines
      else if test commentLineRe line
      then usageLoopEarlier ms (Suc lineIndex) lines
      else lineUsages ms lineIndex [] line @ usageLoopEarlier ms (Suc lineIndex) lines)"

definition findModelMethodUsagesEarlier :: "string \<Rightarrow> string list \<Rightarrow> usage list" where
  "findModelMethodUsagesEarlier text ms = usageLoopEarlier ms 0 (splitOn newline text)"

section \<open>checkDocument\<close>

definition notImportedMessage :: "string \<Rightarrow> string" where
  "notImportedMessage name =
     ''Model '' @ [sq] @ name @ [sq] @
     '' is not imported. Please import the model before using it.''"

definition diagnosticOf :: "usage \<Rightarrow> diagnostic" where
  "diagnosticOf u =
     \<lparr>dRange = uRange u, dMessage = notImportedMessage (uModelName u),
      dSeverity = Warning, dCode = ''missing-model-import'',
      dSource = ''MongoDB Schema Checker''\<rparr>"

text \<open>The loop over the usages: one diagnostic for each usage of a name not in the set.\<close>

fun report :: "string list \<Rightarrow> usage list \<Rightarrow> diagnostic list" where
  "report importedModels [] = []"
| "report importedModels (u # us) =
     (if uModelName u \<in> set importedModels then report importedModels us
      else diagnosticOf u # report importedModels us)"

text \<open>
  What \<open>checkDocument\<close> computes from the text and the method list once its two
  early returns are passed: the diagnostics it hands to the collection.
\<close>

definition scan :: "string \<Rightarrow> string list \<Rightarrow> diagnostic list" where
  "scan text ms = report (getImportedModels text) (findModelMethodUsages text ms)"

text \<open>
  \<open>checkDocument\<close>: \<open>None\<close> when it returns early (another language, or a text
  longer than the limit) and leaves the collection as it is, otherwise the diagnostics
  it sets for the document.
\<close>

definition checkDocument :: "config \<Rightarrow> document \<Rightarrow> diagnostic list option" where
  "checkDocument cfg doc =
     (if languageId doc \<notin>
           set [''javascript'', ''typescript'', ''javascriptreact'', ''typescriptreact'']
      then None
      else if skipLargeFiles cfg \<and> length (getText doc) > maxFileSize cfg then None
      else Some (scan (getText doc) (modelMethods cfg)))"

text \<open>
  The usages the loop of \<open>checkDocument\<close> reports, before they are turned into
  diagnostics (lemma \<open>scan_unresolved\<close>).
\<close>

definition unresolvedUsages :: "string \<Rightarrow> string list \<Rightarrow> usage list" where
  "unresolvedUsages text ms =
     filter (\<lambda>u. uModelName u \<notin> set (getImportedModels text)) (findModelMethodUsages text ms)"

section \<open>ModelImportCodeActionProvider\<close>

text \<open>\<open>/Model '(\w+)' is not imported/\<close>\<close>

definition modelNameRe :: re where
  "modelNameRe = seq [Lit (''Model '' @ [sq]), Grp 1 (Plus Word), Lit ([sq] @ '' is not imported'')]"

definition extractModelName :: "string \<Rightarrow> string option" where
  "extractModelName message = (case match modelNameRe message of None \<Rightarrow> None | Some m \<Rightarrow> group m 1)"

text \<open>\<open>/^(const|let|var)\s+.*=\s*require/\<close>\<close>

definition requireAssignRe :: re where
  "requireAssignRe =
     seq [Bol, Grp 1 (alt [Lit ''const'', Lit ''let'', Lit ''var'']), Plus Space, Star Dot,
          Lit ''='', Star Space, Lit ''require'']"

text \<open>
  The loop of \<open>findImportInsertPosition\<close> from line \<open>i\<close> on: it returns the value of
  \<open>lastImportLine\<close> (\<open>-1\<close> at the start) when the loop ends or breaks.
\<close>

fun insertLoop :: "nat \<Rightarrow> int \<Rightarrow> string list \<Rightarrow> int" where
  "insertLoop i lastImportLine [] = lastImportLine"
| "insertLoop i lastImportLine (l # ls) =
     (let line = trim l;
          lastImport =
            (if startsWith ''import '' line \<or> test requireAssignRe line then int i
             else lastImportLine)
      in if line \<noteq> [] \<and>
            \<not> startsWith ''import '' line \<and>
            \<not> startsWith ''//'' line \<and>
            \<not> startsWith ''/*'' line \<and>
            \<not> startsWith ''*'' line \<and>
            \<not> test requireAssignRe line \<and>
            lastImport \<ge> 0
         then lastImport
         else insertLoop (Suc i) lastImport ls)"

definition findImportInsertPosition :: "document \<Rightarrow> position" where
  "findImportInsertPosition doc =
     (let lastImportLine = insertLoop 0 (- 1) (splitOn newline (getText doc))
      in if lastImportLine \<ge> 0
         then \<lparr>pLine = nat (lastImportLine + 1), pCharacter = 0\<rparr>
         else \<lparr>pLine = 0, pCharacter = 0\<rparr>)"

datatype importType = Default | Named

datatype codeActionKind = QuickFix

text \<open>The one insertion a \<open>WorkspaceEdit\<close> of the provider holds.\<close>

record insertEdit =
  ePosition :: position
  eText :: string

record codeAction =
  title :: string
  kind :: codeActionKind
  aDiagnostics :: "diagnostic list"
  isPreferred :: bool
  edit :: insertEdit

definition createImportAction ::
    "document \<Rightarrow> diagnostic \<Rightarrow> string \<Rightarrow> importType \<Rightarrow> codeAction" where
  "createImportAction doc d modelName importType =
     (let importStatement =
            (if importType = Default
             then ''import '' @ modelName @ '' from '' @ [dq] @ ''./models/'' @ modelName @
                  [dq] @ '';'' @ [newline]
             else ''import { '' @ modelName @ '' } from '' @ [dq] @ ''./models'' @ [dq] @
                  '';'' @ [newline]);
          insertPosition = findImportInsertPosition doc
      in \<lparr>title =
            (if importType = Default
             then ''Import '' @ modelName @ '' from '' @ [sq] @ ''./models/'' @ modelName @ [sq]
             else ''Import { '' @ modelName @ '' } from '' @ [sq] @ ''./models'' @ [sq]),
          kind = QuickFix,
          aDiagnostics = [d],
          isPreferred = (importType = Default),
          edit = \<lparr>ePosition = insertPosition, eText = importStatement\<rparr>\<rparr>)"

text \<open>
  \<open>provideCodeActions\<close> over \<open>context.diagnostics\<close>; the range and the cancellation
  token are not used by the source.
\<close>

fun provideCodeActions :: "document \<Rightarrow> diagnostic list \<Rightarrow> codeAction list" where
  "provideCodeActions doc [] = []"
| "provideCodeActions doc (d # ds) =
     (if dSource d = ''MongoDB Schema Checker''
      then (case extractModelName (dMessage d) of
              None \<Rightarrow> provideCodeActions doc ds
            | Some modelName \<Rightarrow>
                if modelName = [] then provideCodeActions doc ds
                else createImportAction doc d modelName Default # provideCodeActions doc ds)
      else provideCodeActions doc ds)"

section \<open>Inputs and notions of the properties\<close>

text \<open>Scenario A: a use of \<open>User\<close> with no import.\<close>

definition scenarioA :: string where
  "scenarioA =
     ''async function f() {'' @ [newline] @
     ''  await User.updateOne({}, {});'' @ [newline] @
     ''}''"

text \<open>Scenario D: a destructured \<open>require\<close> with a rename, then a use of the alias.\<close>

definition scenarioD :: string where
  "scenarioD =
     ''const { A, B: C } = require('' @ [dq] @ ''./models'' @ [dq] @ '');'' @ [newline] @
     ''await C.find({});''"

definition jsDocument :: "string \<Rightarrow> document" where
  "jsDocument text = \<lparr>languageId = ''javascript'', getText = text\<rparr>"

text \<open>The diagnostic of the extension on line \<open>l\<close>, columns \<open>c\<close> to \<open>c'\<close>.\<close>

definition warning :: "nat \<Rightarrow> nat \<Rightarrow> nat \<Rightarrow> string \<Rightarrow> diagnostic" where
  "warning l c c' msg =
     \<lparr>dRange = \<lparr>rStart = \<lparr>pLine = l, pCharacter = c\<rparr>, rEnd = \<lparr>pLine = l, pCharacter = c'\<rparr>\<rparr>,
      dMessage = msg, dSeverity = Warning, dCode = ''missing-model-import'',
      dSource = ''MongoDB Schema Checker''\<rparr>"

text \<open>
  The comment tracker that both loops run: for each line, whether the loop leaves it at
  one of its two comment tests.
\<close>

fun commentSkips :: "bool \<Rightarrow> string list \<Rightarrow> bool list" where
  "commentSkips inMultiLineComment [] = []"
| "commentSkips inMultiLineComment (line # lines) =
     (let trimmedLine = trim line;
          inComment = (if includesStr ''/*'' trimmedLine then True else inMultiLineComment)
      in if inComment
         then True # commentSkips (if includesStr ''*/'' trimmedLine then False else inComment) lines
         else startsWith ''//'' trimmedLine # commentSkips inComment lines)"

text \<open>
  What the loop of \<open>getImportedModels\<close> adds for a line that it does not skip: the
  result of its two patterns on that line.
\<close>

definition boundOnLine :: "string \<Rightarrow> string set" where
  "boundOnLine line = set (es6Names line) \<union> set (requireNames line)"

text \<open>The line a usage is reported on.\<close>

definition lineOf :: "usage \<Rightarrow> nat" where
  "lineOf u = pLine (rStart (uRange u))"

text \<open>Uses inside a block comment and on a line comment, and one in code.\<close>

definition commentedUsages :: string where
  "commentedUsages =
     ''/* disabled:'' @ [newline] @
     ''await Product.find({});'' @ [newline] @
     ''await Order.create({}); */'' @ [newline] @
     ''  // await Ghost.find({});'' @ [newline] @
     ''await Item.find({});''"

text \<open>
  The two tests of the loop of \<open>findImportInsertPosition\<close> on a line. Both read the
  trimmed line alone, and the loop keeps no comment state. An import or require line
  starts with \<open>import\<close> and a space, or matches the require pattern. A line looks like
  code when it is not empty, is not an import or require line and does not start with
  \<open>//\<close>, \<open>/*\<close> or \<open>*\<close>: the body of a block comment looks like code where it
  starts with none of these.
\<close>

definition isImportLine :: "string \<Rightarrow> bool" where
  "isImportLine l = (startsWith ''import '' (trim l) \<or> test requireAssignRe (trim l))"

definition looksLikeCode :: "string \<Rightarrow> bool" where
  "looksLikeCode l =
     (trim l \<noteq> [] \<and>
      \<not> startsWith ''import '' (trim l) \<and>
      \<not> startsWith ''//'' (trim l) \<and>
      \<not> startsWith ''/*'' (trim l) \<and>
      \<not> startsWith ''*'' (trim l) \<and>
      \<not> test requireAssignRe (trim l))"




text \<open>A name as the patterns capture it: one or more word characters.\<close>

definition isIdentifier :: "string \<Rightarrow> bool" where
  "isIdentifier n = (n \<noteq> [] \<and> list_all isWord n)"

text \<open>The way the matcher takes first, if any.\<close>

definition first :: "re \<Rightarrow> mstate \<Rightarrow> mstate option" where
  "first e st = (case matches e st of [] \<Rightarrow> None | x # _ \<Rightarrow> Some x)"

text \<open>A repetition of class \<open>k\<close> cannot go on into \<open>v\<close>.\<close>

definition stops :: "cls \<Rightarrow> string \<Rightarrow> bool" where
  "stops k v = (case v of [] \<Rightarrow> True | x # _ \<Rightarrow> \<not> inCls k x)"

text \<open>The group numbers of an expression.\<close>

fun groupsOf :: "re \<Rightarrow> nat set" where
  "groupsOf (Seq x y) = groupsOf x \<union> groupsOf y"
| "groupsOf (Alt x y) = groupsOf x \<union> groupsOf y"
| "groupsOf (Grp i x) = insert i (groupsOf x)"
| "groupsOf e = {}"

text \<open>
  From the rest \<open>r\<close> of the input and the captures \<open>c\<close>, the first way of \<open>e\<close> ends at
  the rest \<open>r'\<close> with the captures \<open>c'\<close>, whatever stands before.
\<close>

definition reaches :: "re \<Rightarrow> string \<Rightarrow> (nat \<times> string) list \<Rightarrow> string \<Rightarrow> (nat \<times> string) list \<Rightarrow> bool" where
  "reaches e r c r' c' = (\<forall>b. \<exists>b'. first e (b, r, c) = Some (b', r', c'))"

text \<open>
  No match of \<open>e\<close> starts inside \<open>p\<close>, where \<open>b\<close> stands before \<open>p\<close> (nearest first) and
  \<open>r\<close> after it: the positions \<open>search\<close> passes over before it reaches \<open>r\<close>.
\<close>

fun noMatchIn :: "re \<Rightarrow> string \<Rightarrow> string \<Rightarrow> string \<Rightarrow> bool" where
  "noMatchIn e b [] r = True"
| "noMatchIn e b (c # p) r = (matchAt e b (c # p @ r) = None \<and> noMatchIn e (c # b) p r)"

text \<open>Two imports on one line, and a use of the second name.\<close>

definition twoImports :: string where
  "twoImports =
     ''import A from 'a'; import B from 'b';'' @ [newline] @
     ''await B.find({});''"

text \<open>An import inside a string literal, after a use of the name.\<close>

definition importInString :: string where
  "importInString =
     ''await Ghost.find({});'' @ [newline] @
     ''log('' @ [dq] @ ''import Ghost from 'm' '' @ [dq] @ '');''"

text \<open>An expression every match of which takes at least one character.\<close>

fun consuming :: "re \<Rightarrow> bool" where
  "consuming (Lit l) = (l \<noteq> [])"
| "consuming (Cls k) = True"
| "consuming (Plus k) = True"
| "consuming (Seq x y) = (consuming x \<or> consuming y)"
| "consuming (Alt x y) = (consuming x \<and> consuming y)"
| "consuming (Grp i x) = consuming x"
| "consuming e = False"

text \<open>
  The five binder forms of section 4.2 of the specification, written as texts. An
  entry between braces is a name between two runs of white space (\<open>Plain u n w\<close>),
  or a name, white space, the rename separator, white space and a second name, again
  between two runs of white space (\<open>Renamed u n s1 s2 m w\<close>); the left-hand name is
  \<open>n\<close>. The separator is \<open>as\<close> in an import and a colon in a \<open>require\<close>.
\<close>

datatype entry =
    Plain string string string
  | Renamed string string string string string string


fun importEntry :: "entry \<Rightarrow> string" where
  "importEntry (Plain u n w) = u @ n @ w"
| "importEntry (Renamed u n s1 s2 m w) = u @ n @ s1 @ ''as'' @ s2 @ m @ w"

fun requireEntry :: "entry \<Rightarrow> string" where
  "requireEntry (Plain u n w) = u @ n @ w"
| "requireEntry (Renamed u n s1 s2 m w) = u @ n @ s1 @ '':'' @ s2 @ m @ w"

text \<open>
  The parts of an entry are what they stand for: names are identifiers and the runs
  are white space. In an import the word \<open>as\<close> has white space on both sides.
\<close>

fun entryOk :: "entry \<Rightarrow> bool" where
  "entryOk (Plain u n w) = (isIdentifier n \<and> list_all isSpace u \<and> list_all isSpace w)"
| "entryOk (Renamed u n s1 s2 m w) =
     (isIdentifier n \<and> isIdentifier m \<and> list_all isSpace u \<and> list_all isSpace s1 \<and>
      list_all isSpace s2 \<and> list_all isSpace w)"

fun spaced :: "entry \<Rightarrow> bool" where
  "spaced (Plain u n w) = True"
| "spaced (Renamed u n s1 s2 m w) = (s1 \<noteq> [] \<and> s2 \<noteq> [])"

text \<open>The entries of a list, with a comma between two of them.\<close>

fun commaSep :: "string list \<Rightarrow> string" where
  "commaSep [] = []"
| "commaSep [x] = x"
| "commaSep (x # y # xs) = x @ CHR '','' # commaSep (y # xs)"

text \<open>White space that separates two words: at least one character.\<close>

definition isGap :: "string \<Rightarrow> bool" where
  "isGap w = (w \<noteq> [] \<and> list_all isSpace w)"

text \<open>
  The forms, with the runs of white space between their words as arguments, in the
  order of the text:
  \<^item> \<open>DefaultImport\<close>: \<open>import <Name> from '\<close>;
  \<^item> \<open>NamedImport\<close>: \<open>import {<entries>} from '\<close>;
  \<^item> \<open>NamespaceImport\<close>: \<open>import * as <Name> from '\<close>;
  \<^item> \<open>RequireSingle\<close>: \<open><keyword> <Name> = require(\<close>;
  \<^item> \<open>RequireDestructured\<close>: \<open><keyword> {<entries>} = require(\<close>.

  The text of a form ends with the opening quote of the module path, or with the
  opening parenthesis of the call; what follows on the line is free.
\<close>

datatype binderForm =
    DefaultImport string string string string char
  | NamedImport string "entry list" string string char
  | NamespaceImport string string string string string string char
  | RequireSingle string string string string string string
  | RequireDestructured string string "entry list" string string string

fun formText :: "binderForm \<Rightarrow> string" where
  "formText (DefaultImport w1 n w2 w3 q) = ''import'' @ w1 @ n @ w2 @ ''from'' @ w3 @ [q]"
| "formText (NamedImport w1 es w2 w3 q) =
     ''import'' @ w1 @ ''{'' @ commaSep (map importEntry es) @ ''}'' @ w2 @ ''from'' @ w3 @ [q]"
| "formText (NamespaceImport w1 w2 w3 n w4 w5 q) =
     ''import'' @ w1 @ ''*'' @ w2 @ ''as'' @ w3 @ n @ w4 @ ''from'' @ w5 @ [q]"
| "formText (RequireSingle kw w1 n w2 w3 w4) =
     kw @ w1 @ n @ w2 @ ''='' @ w3 @ ''require'' @ w4 @ ''(''"
| "formText (RequireDestructured kw w1 es w2 w3 w4) =
     kw @ w1 @ ''{'' @ commaSep (map requireEntry es) @ ''}'' @ w2 @ ''='' @ w3 @
     ''require'' @ w4 @ ''(''"

text \<open>
  The side conditions of a form: names are identifiers, the runs between words are
  white space (not empty where two words meet), the quote is a single or a double
  quote, the keyword is \<open>const\<close>, \<open>let\<close> or \<open>var\<close>, and braces hold at least one entry.
\<close>

fun formOk :: "binderForm \<Rightarrow> bool" where
  "formOk (DefaultImport w1 n w2 w3 q) =
     (isIdentifier n \<and> isGap w1 \<and> isGap w2 \<and> isGap w3 \<and> q \<in> set [sq, dq])"
| "formOk (NamedImport w1 es w2 w3 q) =
     (es \<noteq> [] \<and> list_all entryOk es \<and> list_all spaced es \<and>
      isGap w1 \<and> isGap w2 \<and> isGap w3 \<and> q \<in> set [sq, dq])"
| "formOk (NamespaceImport w1 w2 w3 n w4 w5 q) =
     (isIdentifier n \<and> isGap w1 \<and> isGap w2 \<and> isGap w3 \<and> isGap w4 \<and> isGap w5 \<and>
      q \<in> set [sq, dq])"
| "formOk (RequireSingle kw w1 n w2 w3 w4) =
     (kw \<in> set [''const'', ''let'', ''var''] \<and> isIdentifier n \<and> isGap w1 \<and>
      list_all isSpace w2 \<and> list_all isSpace w3 \<and> list_all isSpace w4)"
| "formOk (RequireDestructured kw w1 es w2 w3 w4) =
     (kw \<in> set [''const'', ''let'', ''var''] \<and> es \<noteq> [] \<and> list_all entryOk es \<and> isGap w1 \<and>
      list_all isSpace w2 \<and> list_all isSpace w3 \<and> list_all isSpace w4)"


text \<open>
  The words one of which opens a form: the patterns of the binder start with them.
\<close>

fun formKeywords :: "binderForm \<Rightarrow> string list" where
  "formKeywords (RequireSingle kw w1 n w2 w3 w4) = [''const'', ''let'', ''var'']"
| "formKeywords (RequireDestructured kw w1 es w2 w3 w4) = [''const'', ''let'', ''var'']"
| "formKeywords s = [''import'']"

text \<open>
  The word \<open>K\<close> starts at a position of \<open>pre\<close>, in the text \<open>pre\<close> followed by \<open>r\<close>.
\<close>

fun startsInside :: "string \<Rightarrow> string \<Rightarrow> string \<Rightarrow> bool" where
  "startsInside K [] r = False"
| "startsInside K (c # p) r = (startsWith K (c # p @ r) \<or> startsInside K p r)"


text \<open>
  An import, a block comment whose body line starts with none of \<open>//\<close>, \<open>/*\<close> and
  \<open>*\<close>, a second import, code.
\<close>

definition blockCommentBody :: string where
  "blockCommentBody =
     ''import A from 'a';'' @ [newline] @
     ''/*'' @ [newline] @
     ''  license text'' @ [newline] @
     ''*/'' @ [newline] @
     ''import B from 'b';'' @ [newline] @
     ''run();''"

section \<open>The two loops that are not structural end\<close>

lemma startsWith_iff: "startsWith p s \<longleftrightarrow> (\<exists>t. s = p @ t)"
proof
  assume "startsWith p s"
  then have "s = p @ drop (length p) s"
    by (metis startsWith_def append_take_drop_id)
  then show "\<exists>t. s = p @ t" ..
next
  assume "\<exists>t. s = p @ t"
  then show "startsWith p s" by (auto simp: startsWith_def)
qed

lemma matches_split:
  "(b', r', c') \<in> set (matches e (b, r, c)) \<Longrightarrow> \<exists>u. r = u @ r' \<and> b' = rev u @ b"
proof (induction e arbitrary: b r c b' r' c')
  case (Lit l)
  then show ?case
    by (auto simp: startsWith_iff split: if_splits)
next
  case (Cls k)
  then show ?case by (auto split: list.splits if_splits)
next
  case (Star k)
  then show ?case by (auto intro: exI [of _ "take n r" for n])
next
  case (Plus k)
  then show ?case by (auto intro: exI [of _ "take n r" for n])
next
  case (LazyStar k)
  then show ?case by (auto intro: exI [of _ "take n r" for n])
next
  case (Seq x y)
  from Seq.prems obtain b1 r1 c1 where
    1: "(b1, r1, c1) \<in> set (matches x (b, r, c))" and
    2: "(b', r', c') \<in> set (matches y (b1, r1, c1))"
    by auto
  from Seq.IH(1) [OF 1] obtain u where u: "r = u @ r1" "b1 = rev u @ b" by blast
  from Seq.IH(2) [OF 2] obtain v where v: "r1 = v @ r'" "b' = rev v @ b1" by blast
  from u v show ?case by (intro exI [of _ "u @ v"]) simp
next
  case (Alt x y)
  then show ?case by auto
next
  case (Grp i x)
  then show ?case by auto
next
  case WordB
  then show ?case by (auto split: if_splits)
next
  case Bol
  then show ?case by (auto split: if_splits)
qed

lemma matchAt_split:
  assumes "matchAt e b r = Some m"
  shows "\<exists>u. r = u @ after m \<and> before m = rev u @ b"
proof -
  from assms obtain b' r' c' rest where
    ms: "matches e (b, r, []) = (b', r', c') # rest" and
    m: "m = \<lparr>index = length b, before = b', after = r', groups = c'\<rparr>"
    by (auto simp: matchAt_def split: list.splits)
  from ms have "(b', r', c') \<in> set (matches e (b, r, []))" by simp
  from matches_split [OF this] m show ?thesis by simp
qed

termination splitLoop
proof (relation "measures [\<lambda>(e, piece, b, r). length r, \<lambda>(e, piece, b, r). length piece]")
  fix e :: re and piece b :: string and c :: char and r :: string and m :: matchResult
  assume m: "matchAt e b (c # r) = Some m"
    and ne: "length (before m) \<noteq> length b - length piece"
  from matchAt_split [OF m] obtain u where u: "c # r = u @ after m" "before m = rev u @ b"
    by blast
  show "((e, [], before m, after m), (e, piece, b, c # r))
      \<in> measures [\<lambda>(e, piece, b, r). length r, \<lambda>(e, piece, b, r). length piece]"
  proof (cases u)
    case Nil
    with u ne have "piece \<noteq> []" by auto
    with Nil u show ?thesis by auto
  next
    case (Cons x xs)
    with u have "length (after m) < length (c # r)"
      by (metis length_append length_greater_0_conv less_add_same_cancel2 list.distinct(1) add.commute)
    then show ?thesis by simp
  qed
qed auto

lemma matches_length:
  "(b', r', c') \<in> set (matches e (b, r, c)) \<Longrightarrow> length r' \<le> length r"
  by (drule matches_split) auto

lemma consuming_matches:
  "consuming e \<Longrightarrow> (b', r', c') \<in> set (matches e (b, r, c)) \<Longrightarrow> length r' < length r"
proof (induction e arbitrary: b r c b' r' c')
  case (Lit l)
  then show ?case by (cases r) (auto simp: startsWith_iff split: if_splits)
next
  case (Cls k)
  then show ?case by (auto split: list.splits if_splits)
next
  case (Plus k)
  then obtain n where n: "1 \<le> n" "n \<le> run k r" "r' = drop n r" by auto
  have "run k r \<le> length r" by (simp add: run_def length_takeWhile_le)
  with n show ?case by simp
next
  case (Seq x y)
  from Seq.prems(2) obtain b1 r1 c1 where
    1: "(b1, r1, c1) \<in> set (matches x (b, r, c))" and
    2: "(b', r', c') \<in> set (matches y (b1, r1, c1))"
    by auto
  from 1 2 Seq.prems(1) Seq.IH(1) [OF _ 1] Seq.IH(2) [OF _ 2]
    matches_length [OF 1] matches_length [OF 2]
  show ?case by fastforce
next
  case (Alt x y)
  then show ?case by auto
next
  case (Grp i x)
  then show ?case by auto
qed simp_all

lemma modelMethodRegex_consuming: "consuming (modelMethodRegex ms)"
  by (simp add: modelMethodRegex_def)

lemma search_matchAt:
  "search e b r = Some m \<Longrightarrow> \<exists>p s. r = p @ s \<and> matchAt e (rev p @ b) s = Some m"
proof (induction r arbitrary: b)
  case Nil
  then show ?case by simp
next
  case (Cons c r)
  show ?case
  proof (cases "matchAt e b (c # r)")
    case None
    with Cons.prems have "search e (c # b) r = Some m" by simp
    from Cons.IH [OF this] obtain p s where "r = p @ s" "matchAt e (rev p @ c # b) s = Some m"
      by blast
    then show ?thesis by (intro exI [of _ "c # p"] exI [of _ s]) simp
  next
    case (Some m')
    with Cons.prems have "matchAt e b (c # r) = Some m" by simp
    then show ?thesis by (intro exI [of _ "[]"] exI [of _ "c # r"]) simp
  qed
qed

lemma matchAt_consuming:
  assumes "consuming e" and "matchAt e b r = Some m"
  shows "length (after m) < length r"
proof -
  from assms(2) obtain b' r' c' rest where
    ms: "matches e (b, r, []) = (b', r', c') # rest" and "after m = r'"
    by (auto simp: matchAt_def split: list.splits)
  moreover from ms have "(b', r', c') \<in> set (matches e (b, r, []))" by simp
  from consuming_matches [OF assms(1) this] have "length r' < length r" .
  ultimately show ?thesis by simp
qed

lemma search_consuming:
  assumes "consuming e" and "search e b r = Some m"
  shows "length (after m) < length r"
proof -
  from search_matchAt [OF assms(2)] obtain p s where
    "r = p @ s" "matchAt e (rev p @ b) s = Some m" by blast
  with matchAt_consuming [OF assms(1)] show ?thesis by fastforce
qed

termination lineUsages
  by (relation "measure (\<lambda>(ms, lineIndex, b, r). length r)")
    (auto dest: search_consuming [OF modelMethodRegex_consuming])

declare lineUsages.simps [simp del]

section \<open>The reconciliation loop\<close>

lemma scan_unresolved: "scan text ms = map diagnosticOf (unresolvedUsages text ms)"
proof -
  have "report imp us = map diagnosticOf (filter (\<lambda>u. uModelName u \<notin> set imp) us)" for imp us
    by (induction us) simp_all
  then show ?thesis by (simp add: scan_def unresolvedUsages_def)
qed

lemma checkDocument_js:
  "length text \<le> 100000 \<Longrightarrow>
     checkDocument defaultConfig (jsDocument text) = Some (scan text defaultMethods)"
  by (simp add: checkDocument_def defaultConfig_def jsDocument_def)

section \<open>The scenarios\<close>

lemma scenarioA_length: "length scenarioA = 54"
  by (simp add: scenarioA_def)

lemma scenarioA_usages:
  "unresolvedUsages scenarioA defaultMethods =
     [\<lparr>uRange = \<lparr>rStart = \<lparr>pLine = 1, pCharacter = 8\<rparr>, rEnd = \<lparr>pLine = 1, pCharacter = 12\<rparr>\<rparr>,
       uModelName = ''User'', uMethodName = ''updateOne''\<rparr>]"
  by code_simp

text \<open>
  C3 (scenario A). With the default configuration the text of scenario A gets exactly
  one diagnostic: its range is columns 8 to 12 of line 1, its message is
  \<open>Model 'User' is not imported. Please import the model before using it.\<close>, and the
  usage it reports has the model name \<open>User\<close>.
\<close>

theorem scenario_A:
  "checkDocument defaultConfig (jsDocument scenarioA) =
     Some [warning 1 8 12
       ''Model 'User' is not imported. Please import the model before using it.'']
   \<and> map uModelName (unresolvedUsages scenarioA defaultMethods) = [''User'']"
  by (simp add: checkDocument_js scenarioA_length scan_unresolved scenarioA_usages
      diagnosticOf_def notImportedMessage_def warning_def)

lemma scenarioD_length: "length scenarioD = 58"
  by (simp add: scenarioD_def)

lemma scenarioD_usages:
  "unresolvedUsages scenarioD defaultMethods =
     [\<lparr>uRange = \<lparr>rStart = \<lparr>pLine = 1, pCharacter = 6\<rparr>, rEnd = \<lparr>pLine = 1, pCharacter = 7\<rparr>\<rparr>,
       uModelName = ''C'', uMethodName = ''find''\<rparr>]"
  by code_simp

lemma scenarioD_imported: "getImportedModels scenarioD = [''A'', ''B'']"
  by code_simp

text \<open>
  C1 (scenario D), as stated: the scan of scenario D would give no diagnostic. It gives
  one.
\<close>

theorem scenario_D_has_finding:
  "checkDocument defaultConfig (jsDocument scenarioD) \<noteq> Some []"
  by (simp add: checkDocument_js scenarioD_length scan_unresolved scenarioD_usages)

text \<open>
  C1 (scenario D), amended. The destructured \<open>require\<close> binds the keys \<open>A\<close> and \<open>B\<close>,
  not the alias \<open>C\<close>; the use of \<open>C\<close> on line 1 gets exactly one diagnostic, on
  columns 6 to 7.
\<close>

theorem scenario_D_binds_key:
  "getImportedModels scenarioD = [''A'', ''B''] \<and>
   checkDocument defaultConfig (jsDocument scenarioD) =
     Some [warning 1 6 7
       ''Model 'C' is not imported. Please import the model before using it.'']"
  by (simp add: checkDocument_js scenarioD_length scan_unresolved scenarioD_usages
      scenarioD_imported diagnosticOf_def notImportedMessage_def warning_def)

lemma empty_allowlist_usages:
  "unresolvedUsages ''User.find()'' [] =
     [\<lparr>uRange = \<lparr>rStart = \<lparr>pLine = 0, pCharacter = 0\<rparr>, rEnd = \<lparr>pLine = 0, pCharacter = 4\<rparr>\<rparr>,
       uModelName = ''User'', uMethodName = []\<rparr>]"
  by code_simp

lemma empty_allowlist_earlier:
  "findModelMethodUsagesEarlier ''User.find()'' [] =
     [\<lparr>uRange = \<lparr>rStart = \<lparr>pLine = 0, pCharacter = 0\<rparr>, rEnd = \<lparr>pLine = 0, pCharacter = 4\<rparr>\<rparr>,
       uModelName = ''User'', uMethodName = []\<rparr>]"
  by code_simp

text \<open>
  C2 (empty method list). With \<open>modelMethods = []\<close> the pattern is
  \<open>\b([A-Z][a-zA-Z0-9_]*)\.()\b\<close>: it matches \<open>User.\<close> in front of any word character,
  and the one-line text \<open>User.find()\<close> gets a diagnostic.
\<close>

theorem empty_allowlist_reports:
  "checkDocument (defaultConfig\<lparr>modelMethods := []\<rparr>) (jsDocument ''User.find()'') =
     Some [warning 0 0 4
       ''Model 'User' is not imported. Please import the model before using it.'']"
  by (simp add: checkDocument_def defaultConfig_def jsDocument_def scan_unresolved
      empty_allowlist_usages diagnosticOf_def notImportedMessage_def warning_def)

section \<open>The comment tracker and the two loops\<close>

lemma length_commentSkips [simp]: "length (commentSkips inC lines) = length lines"
  by (induction lines arbitrary: inC) (simp_all add: Let_def)

lemma set_setAdd [simp]: "set (setAdd x xs) = insert x (set xs)"
  by (auto simp: setAdd_def)

lemma set_addAll [simp]: "set (addAll names xs) = set xs \<union> set names"
  unfolding addAll_def by (induction names arbitrary: xs) auto

lemma ex_less_Cons: "(\<exists>k < length (x # xs). P k) \<longleftrightarrow> P 0 \<or> (\<exists>k < length xs. P (Suc k))"
  by (auto simp: less_Suc_eq_0_disj)

lemma importLoop_bound:
  "N \<in> set (importLoop inC acc lines) \<longleftrightarrow>
     N \<in> set acc \<or>
     (\<exists>k < length lines. \<not> commentSkips inC lines ! k \<and> N \<in> boundOnLine (lines ! k))"
proof (induction lines arbitrary: inC acc)
  case Nil
  then show ?case by simp
next
  case (Cons l ls)
  show ?case
    unfolding ex_less_Cons
    by (auto simp: Let_def Cons.IH boundOnLine_def)
qed

lemma getImportedModels_bound:
  "N \<in> set (getImportedModels text) \<longleftrightarrow>
     (\<exists>k < length (splitOn newline text).
        \<not> commentSkips False (splitOn newline text) ! k \<and> N \<in> boundOnLine (splitOn newline text ! k))"
  by (simp add: getImportedModels_def importLoop_bound)

lemma lineUsages_line: "u \<in> set (lineUsages ms i b r) \<Longrightarrow> lineOf u = i"
proof (induction ms i b r rule: lineUsages.induct)
  case (1 ms i b r)
  from "1.prems" obtain m where m: "search (modelMethodRegex ms) b r = Some m"
    and u: "u = usageOf i m \<or> u \<in> set (lineUsages ms i (before m) (after m))"
    using lineUsages.simps [of ms i b r] by (auto split: option.splits)
  from u show ?case
  proof
    assume "u = usageOf i m"
    then show ?thesis by (simp add: lineOf_def usageOf_def Let_def)
  next
    assume "u \<in> set (lineUsages ms i (before m) (after m))"
    with "1.IH" [OF m] show ?thesis .
  qed
qed

lemma usageLoop_line:
  "u \<in> set (usageLoop ms i inC lines) \<Longrightarrow>
     \<exists>k < length lines. lineOf u = i + k \<and> \<not> commentSkips inC lines ! k"
proof (induction lines arbitrary: i inC)
  case Nil
  then show ?case by simp
next
  case (Cons l ls)
  let ?t = "trim l"
  let ?c = "if includesStr ''/*'' ?t then True else inC"
  from Cons.prems consider
    (here) "\<not> ?c" "\<not> startsWith ''//'' ?t" "u \<in> set (lineUsages ms i [] l)"
  | (later) inC' where "u \<in> set (usageLoop ms (Suc i) inC' ls)"
      "commentSkips inC (l # ls) = hd (commentSkips inC (l # ls)) # commentSkips inC' ls"
    by (auto simp: Let_def split: if_splits)
  then show ?case
  proof cases
    case here
    then have "lineOf u = i + 0 \<and> \<not> commentSkips inC (l # ls) ! 0"
      by (auto simp: Let_def dest: lineUsages_line)
    then show ?thesis by (intro exI [of _ 0]) simp
  next
    case later
    from Cons.IH [OF later(1)] obtain k where
      "k < length ls" "lineOf u = Suc i + k" "\<not> commentSkips inC' ls ! k" by blast
    moreover from later(2) have "commentSkips inC (l # ls) ! Suc k = commentSkips inC' ls ! k"
      by (metis nth_Cons_Suc)
    ultimately show ?thesis
      by (intro exI [of _ "Suc k"]) (simp del: commentSkips.simps)
  qed
qed

lemma skips_line_comment:
  "k < length lines \<Longrightarrow> startsWith ''//'' (trim (lines ! k)) \<Longrightarrow> commentSkips inC lines ! k"
proof (induction lines arbitrary: k inC)
  case Nil
  then show ?case by simp
next
  case (Cons l ls)
  then show ?case by (cases k) (auto simp: Let_def)
qed

lemma skips_inside:
  "k < length lines \<Longrightarrow> \<forall>j<k. \<not> includesStr ''*/'' (trim (lines ! j)) \<Longrightarrow>
     commentSkips True lines ! k"
proof (induction lines arbitrary: k)
  case Nil
  then show ?case by simp
next
  case (Cons l ls)
  show ?case
  proof (cases k)
    case 0
    then show ?thesis by (simp add: Let_def)
  next
    case (Suc k')
    with Cons.prems have "\<not> includesStr ''*/'' (trim l)"
      and "\<forall>j<k'. \<not> includesStr ''*/'' (trim (ls ! j))" and "k' < length ls"
      by auto
    with Cons.IH Suc show ?thesis by (simp add: Let_def)
  qed
qed

lemma skips_span:
  "i \<le> k \<Longrightarrow> k < length lines \<Longrightarrow> includesStr ''/*'' (trim (lines ! i)) \<Longrightarrow>
     \<forall>j. i \<le> j \<and> j < k \<longrightarrow> \<not> includesStr ''*/'' (trim (lines ! j)) \<Longrightarrow>
     commentSkips inC lines ! k"
proof (induction lines arbitrary: i k inC)
  case Nil
  then show ?case by simp
next
  case (Cons l ls)
  show ?case
  proof (cases i)
    case i0: 0
    show ?thesis
    proof (cases k)
      case 0
      with i0 Cons.prems show ?thesis by (simp add: Let_def)
    next
      case (Suc k')
      with i0 Cons.prems have "includesStr ''/*'' (trim l)" "\<not> includesStr ''*/'' (trim l)"
        and "\<forall>j<k'. \<not> includesStr ''*/'' (trim (ls ! j))" and "k' < length ls"
        by auto
      with skips_inside [of k' ls] Suc show ?thesis by (simp add: Let_def)
    qed
  next
    case (Suc i')
    with Cons.prems obtain k' where k: "k = Suc k'" "i' \<le> k'" "k' < length ls"
      by (cases k) auto
    from Cons.prems Suc k have "includesStr ''/*'' (trim (ls ! i'))"
      and "\<forall>j. i' \<le> j \<and> j < k' \<longrightarrow> \<not> includesStr ''*/'' (trim (ls ! j))"
      by auto
    with Cons.IH [OF k(2,3)] k(1) show ?thesis by (simp add: Let_def)
  qed
qed




lemma findModelMethodUsages_line:
  "u \<in> set (findModelMethodUsages text ms) \<Longrightarrow>
     lineOf u < length (splitOn newline text) \<and>
     \<not> commentSkips False (splitOn newline text) ! lineOf u"
  by (auto simp: findModelMethodUsages_def dest: usageLoop_line)


text \<open>
  C6 (comment suppression). A line whose trimmed form starts with \<open>//\<close>, and a
  line from one that contains \<open>/*\<close> up to and including the first line after it that
  contains \<open>*/\<close>, carries no usage and no diagnostic, whatever the method list.
\<close>

theorem comment_lines_silent:
  assumes "k < length (splitOn newline text)"
    and "startsWith ''//'' (trim (splitOn newline text ! k)) \<or>
         (\<exists>i\<le>k. includesStr ''/*'' (trim (splitOn newline text ! i)) \<and>
            (\<forall>j. i \<le> j \<and> j < k \<longrightarrow> \<not> includesStr ''*/'' (trim (splitOn newline text ! j))))"
  shows "k \<notin> lineOf ` set (findModelMethodUsages text ms) \<and>
         k \<notin> (\<lambda>d. pLine (rStart (dRange d))) ` set (scan text ms)"
proof -
  from assms have skip: "commentSkips False (splitOn newline text) ! k"
    by (auto intro: skips_line_comment skips_span)
  then have 1: "k \<notin> lineOf ` set (findModelMethodUsages text ms)"
    by (auto dest: findModelMethodUsages_line)
  have "(\<lambda>d. pLine (rStart (dRange d))) ` set (scan text ms)
      \<subseteq> lineOf ` set (findModelMethodUsages text ms)"
    by (auto simp: scan_unresolved unresolvedUsages_def diagnosticOf_def lineOf_def)
  with 1 show ?thesis by auto
qed

lemma commentedUsages_lines:
  "splitOn newline commentedUsages =
     [''/* disabled:'', ''await Product.find({});'', ''await Order.create({}); */'',
      ''  // await Ghost.find({});'', ''await Item.find({});'']"
  by code_simp

text \<open>
  C6 at a text with a block comment over lines 0 to 2, a line comment on line 3 and a
  use in code on line 4: the closing line 2 carries no diagnostic, and the only
  diagnostic is on line 4.
\<close>

theorem comment_lines_silent_witness:
  "includesStr ''/*'' (trim (splitOn newline commentedUsages ! 0)) \<and>
   includesStr ''*/'' (trim (splitOn newline commentedUsages ! 2)) \<and>
   2 \<notin> (\<lambda>d. pLine (rStart (dRange d))) ` set (scan commentedUsages defaultMethods) \<and>
   map (\<lambda>d. pLine (rStart (dRange d))) (scan commentedUsages defaultMethods) = [4]"
proof -
  have 1: "(2::nat) < length (splitOn newline commentedUsages)"
    by (simp add: commentedUsages_lines)
  have a: "includesStr ''/*'' (trim (splitOn newline commentedUsages ! 0))"
    unfolding commentedUsages_lines by code_simp
  have b: "\<not> includesStr ''*/'' (trim (splitOn newline commentedUsages ! 0))"
    unfolding commentedUsages_lines by code_simp
  have c: "\<not> includesStr ''*/'' (trim (splitOn newline commentedUsages ! 1))"
    unfolding commentedUsages_lines by code_simp
  have d: "includesStr ''*/'' (trim (splitOn newline commentedUsages ! 2))"
    unfolding commentedUsages_lines by code_simp
  have "\<forall>j. 0 \<le> j \<and> j < (2::nat) \<longrightarrow> \<not> includesStr ''*/'' (trim (splitOn newline commentedUsages ! j))"
    using b c by (auto simp: less_Suc_eq numeral_2_eq_2)
  with a have 2: "startsWith ''//'' (trim (splitOn newline commentedUsages ! 2)) \<or>
         (\<exists>i\<le>2. includesStr ''/*'' (trim (splitOn newline commentedUsages ! i)) \<and>
            (\<forall>j. i \<le> j \<and> j < 2 \<longrightarrow> \<not> includesStr ''*/'' (trim (splitOn newline commentedUsages ! j))))"
    by blast
  have e: "map (\<lambda>d. pLine (rStart (dRange d))) (scan commentedUsages defaultMethods) = [4]"
    by code_simp
  from comment_lines_silent [OF 1 2, of defaultMethods] a d e show ?thesis by simp
qed

section \<open>The insertion point and the fix\<close>



declare insertLoop.simps(2) [simp del]




text \<open>
  Every document with an import or require line has a first such line \<open>f\<close>, a first
  line \<open>s\<close> after it that looks like code (or its end), and a last import or require
  line \<open>k\<close> before \<open>s\<close>.
\<close>

lemma insert_position_cases:
  assumes "\<exists>l \<in> set ls. isImportLine l"
  shows "\<exists>f k s. f \<le> k \<and> k < s \<and> s \<le> length ls \<and>
            isImportLine (ls ! f) \<and> (\<forall>j<f. \<not> isImportLine (ls ! j)) \<and>
            isImportLine (ls ! k) \<and> (\<forall>j. k < j \<and> j < s \<longrightarrow> \<not> isImportLine (ls ! j)) \<and>
            (\<forall>j. f < j \<and> j < s \<longrightarrow> \<not> looksLikeCode (ls ! j)) \<and>
            (s = length ls \<or> looksLikeCode (ls ! s))"
proof -
  let ?imp = "\<lambda>i. i < length ls \<and> isImportLine (ls ! i)"
  from assms obtain i where i: "?imp i" by (auto simp: in_set_conv_nth)
  define f where "f = (LEAST i. ?imp i)"
  from i have f: "?imp f" unfolding f_def by (rule LeastI)
  have f_min: "\<forall>j<f. \<not> isImportLine (ls ! j)"
  proof (intro allI impI)
    fix j assume j: "j < f"
    with f have "j < length ls" by simp
    moreover from j have "\<not> ?imp j" unfolding f_def by (rule not_less_Least)
    ultimately show "\<not> isImportLine (ls ! j)" by simp
  qed
  let ?code = "\<lambda>j. f < j \<and> j < length ls \<and> looksLikeCode (ls ! j)"
  define s where "s = (if \<exists>j. ?code j then LEAST j. ?code j else length ls)"
  have "f < s \<and> s \<le> length ls \<and> (s = length ls \<or> looksLikeCode (ls ! s))"
  proof (cases "\<exists>j. ?code j")
    case True
    then have "?code (LEAST j. ?code j)" by (rule LeastI_ex)
    moreover from True have "s = (LEAST j. ?code j)" unfolding s_def by (rule if_P)
    ultimately show ?thesis by simp
  next
    case False
    then have "s = length ls" unfolding s_def by (rule if_not_P)
    with f show ?thesis by simp
  qed
  then have s: "f < s" "s \<le> length ls" "s = length ls \<or> looksLikeCode (ls ! s)"
    by simp_all
  have s_min: "\<forall>j. f < j \<and> j < s \<longrightarrow> \<not> looksLikeCode (ls ! j)"
  proof (intro allI impI)
    fix j assume j: "f < j \<and> j < s"
    show "\<not> looksLikeCode (ls ! j)"
    proof (cases "\<exists>j. ?code j")
      case True
      then have "s = (LEAST j. ?code j)" unfolding s_def by (rule if_P)
      with j have "j < (LEAST j. ?code j)" by simp
      then have "\<not> ?code j" by (rule not_less_Least)
      moreover from j s(2) have "j < length ls" by simp
      ultimately show ?thesis using j by simp
    next
      case False
      with j s(2) show ?thesis by simp
    qed
  qed
  let ?before = "\<lambda>j. j < s \<and> isImportLine (ls ! j)"
  define k where "k = (GREATEST j. ?before j)"
  from f s(1) have bf: "?before f" by simp
  have bound: "?before j \<Longrightarrow> j \<le> s" for j by simp
  have k: "?before k"
    unfolding k_def using bf bound by (rule GreatestI_nat)
  have k_max: "\<forall>j. ?before j \<longrightarrow> j \<le> k"
  proof (intro allI impI)
    fix j assume "?before j"
    then show "j \<le> k" unfolding k_def using bound by (rule Greatest_le_nat)
  qed
  from k_max bf have "f \<le> k" by blast
  moreover have "\<forall>j. k < j \<and> j < s \<longrightarrow> \<not> isImportLine (ls ! j)"
    using k_max by (meson not_less)
  ultimately show ?thesis using k f f_min s s_min by blast
qed



text \<open>
  C8 (the fix is a function of the text and the identifier). The edit of the default
  import action inserts exactly \<open>import <Name> from "./models/<Name>";\<close> and a
  newline, at column 0 of the line that \<open>findImportInsertPosition\<close> computes from the
  text; neither the diagnostic nor the language of the document enters it.
\<close>

theorem fix_action:
  "edit (createImportAction \<lparr>languageId = l, getText = t\<rparr> d n Default) =
     \<lparr>ePosition = \<lparr>pLine = pLine (findImportInsertPosition \<lparr>languageId = l', getText = t\<rparr>),
                    pCharacter = 0\<rparr>,
      eText = ''import '' @ n @ '' from '' @ [dq] @ ''./models/'' @ n @ [dq] @ '';'' @ [newline]\<rparr>"
  by (simp add: createImportAction_def findImportInsertPosition_def Let_def)






lemma block_comment_body_position:
  "findImportInsertPosition (jsDocument blockCommentBody) = \<lparr>pLine = 1, pCharacter = 0\<rparr>"
  by code_simp


section \<open>The first way of a match\<close>

lemma run_append:
  assumes "list_all (inCls k) u" "stops k v"
  shows "run k (u @ v) = length u"
proof -
  from assms(1) have "takeWhile (inCls k) (u @ v) = u @ takeWhile (inCls k) v"
    by (simp add: list_all_iff takeWhile_append2)
  moreover from assms(2) have "takeWhile (inCls k) v = []"
    by (cases v) (simp_all add: stops_def)
  ultimately show ?thesis by (simp add: run_def)
qed

lemma first_Lit: "first (Lit l) (b, l @ r, c) = Some (rev l @ b, r, c)"
  by (simp add: first_def startsWith_def)

lemma first_Cls: "inCls k x \<Longrightarrow> first (Cls k) (b, x # r, c) = Some (x # b, r, c)"
  by (simp add: first_def)

lemma first_Plus:
  assumes "u \<noteq> []" "list_all (inCls k) u" "stops k v"
  shows "first (Plus k) (b, u @ v, c) = Some (rev u @ b, v, c)"
proof -
  from assms(1) have "1 \<le> length u" by (cases u) simp_all
  then have "rev [1..<Suc (length u)] = length u # rev [1..<length u]"
    by simp
  with run_append [OF assms(2,3)] show ?thesis by (simp add: first_def del: upt_Suc)
qed

lemma first_Star:
  assumes "list_all (inCls k) u" "stops k v"
  shows "first (Star k) (b, u @ v, c) = Some (rev u @ b, v, c)"
  using run_append [OF assms] by (simp add: first_def)

lemma first_Seq:
  "first x st = Some st1 \<Longrightarrow> first y st1 = Some st2 \<Longrightarrow> first (Seq x y) st = Some st2"
  by (auto simp: first_def split: list.splits)

lemma first_Alt1: "first x st = Some st1 \<Longrightarrow> first (Alt x y) st = Some st1"
  by (auto simp: first_def split: list.splits)

lemma first_Alt2: "matches x st = [] \<Longrightarrow> first (Alt x y) st = first y st"
  by (simp add: first_def)

lemma first_Grp:
  "first x (b, r, c) = Some (b', r', c') \<Longrightarrow>
     first (Grp i x) (b, r, c) = Some (b', r', (i, take (length r - length r') r) # c')"
  by (auto simp: first_def split: list.splits)

lemma matchAt_first:
  "first e (b, r, []) = Some (b', r', c') \<Longrightarrow>
     matchAt e b r = Some \<lparr>index = length b, before = b', after = r', groups = c'\<rparr>"
  by (auto simp: first_def matchAt_def split: list.splits)

lemma search_here: "matchAt e b r = Some m \<Longrightarrow> search e b r = Some m"
  by (cases r) simp_all

section \<open>Captures\<close>

lemma matches_groups:
  "(b', r', c') \<in> set (matches e (b, r, c)) \<Longrightarrow>
     \<exists>new. c' = new @ c \<and> fst ` set new \<subseteq> groupsOf e"
proof (induction e arbitrary: b r c b' r' c')
  case (Seq x y)
  from Seq.prems obtain b1 r1 c1 where
    1: "(b1, r1, c1) \<in> set (matches x (b, r, c))" and
    2: "(b', r', c') \<in> set (matches y (b1, r1, c1))"
    by auto
  from Seq.IH(1) [OF 1] obtain n1 where n1: "c1 = n1 @ c" "fst ` set n1 \<subseteq> groupsOf x" by blast
  from Seq.IH(2) [OF 2] obtain n2 where n2: "c' = n2 @ c1" "fst ` set n2 \<subseteq> groupsOf y" by blast
  from n1 n2 show ?case by (intro exI [of _ "n2 @ n1"]) auto
next
  case (Alt x y)
  then show ?case by fastforce
next
  case (Grp i x)
  from Grp.prems obtain c0 where
    1: "(b', r', c0) \<in> set (matches x (b, r, c))" and
    c': "c' = (i, take (length r - length r') r) # c0"
    by auto
  from Grp.IH [OF 1] obtain n where "c0 = n @ c" "fst ` set n \<subseteq> groupsOf x" by blast
  with c' show ?case by (intro exI [of _ "(i, take (length r - length r') r) # n"]) auto
qed (auto split: if_splits list.splits)

lemma map_of_other:
  "fst ` set new \<subseteq> G \<Longrightarrow> i \<notin> G \<Longrightarrow> map_of (new @ c) i = map_of c i"
  by (induction new) auto

section \<open>The message and the name read back from it\<close>

lemma isWord_not_sq: "\<not> isWord sq"
  by (simp add: isWord_def wordChars_def)

lemma list_all_Word: "list_all (inCls Word) n = list_all isWord n"
  by (simp add: list_all_iff)

lemma extract_notImported:
  assumes "isIdentifier N"
  shows "extractModelName (notImportedMessage N) = Some N"
proof -
  define p :: string where "p = ''Model '' @ [sq]"
  define q :: string where "q = [sq] @ '' is not imported''"
  define t :: string where "t = ''. Please import the model before using it.''"
  have msg: "notImportedMessage N = p @ N @ q @ t"
    by (simp add: notImportedMessage_def p_def q_def t_def)
  have re: "modelNameRe = Seq (Lit p) (Seq (Grp 1 (Plus Word)) (Lit q))"
    by (simp add: modelNameRe_def p_def q_def)
  from assms have N: "N \<noteq> []" "list_all (inCls Word) N"
    by (simp_all add: isIdentifier_def list_all_Word)
  have stop: "stops Word (q @ t)"
    by (simp add: stops_def q_def isWord_not_sq)
  have 1: "first (Lit p) ([], p @ N @ q @ t, []) = Some (rev p @ [], N @ q @ t, [])"
    by (rule first_Lit)
  have "first (Plus Word) (rev p @ [], N @ q @ t, []) = Some (rev N @ rev p @ [], q @ t, [])"
    by (rule first_Plus [OF N stop])
  from first_Grp [OF this, of 1]
  have 2: "first (Grp 1 (Plus Word)) (rev p @ [], N @ q @ t, []) =
      Some (rev N @ rev p @ [], q @ t, [(1, N)])"
    by simp
  have 3: "first (Lit q) (rev N @ rev p @ [], q @ t, [(1, N)]) =
      Some (rev q @ rev N @ rev p @ [], t, [(1, N)])"
    by (rule first_Lit)
  from first_Seq [OF 1 first_Seq [OF 2 3]]
  have "first modelNameRe ([], notImportedMessage N, []) =
      Some (rev q @ rev N @ rev p @ [], t, [(1, N)])"
    by (simp only: re msg)
  from search_here [OF matchAt_first [OF this]]
  show ?thesis by (simp add: extractModelName_def match_def group_def)
qed

section \<open>The names the scanner reports\<close>

lemma groupsOf_alt_Lit: "groupsOf (alt (map Lit ms)) = {}"
  by (induction ms rule: induct_list012) simp_all

lemma upper_isWord: "x \<in> set upperChars \<Longrightarrow> isWord x"
  by (auto simp: upperChars_def isWord_def wordChars_def)

lemma run_le_length: "run k r \<le> length r"
  by (simp add: run_def length_takeWhile_le)

lemma take_run: "n \<le> run k xs \<Longrightarrow> list_all (inCls k) (take n xs)"
proof -
  assume "n \<le> run k xs"
  then have "take n xs = take n (takeWhile (inCls k) xs)"
    by (metis run_def takeWhile_dropWhile_id take_append length_takeWhile_le
        diff_is_0_eq take_0 append_Nil2)
  moreover have "list_all (inCls k) (takeWhile (inCls k) xs)"
    by (simp add: list_all_iff) (meson set_takeWhileD)
  ultimately show ?thesis
    by (metis list_all_iff in_set_takeD)
qed

lemma in_matches_Seq:
  "st' \<in> set (matches (Seq x y) st) \<longleftrightarrow> (\<exists>st1 \<in> set (matches x st). st' \<in> set (matches y st1))"
  by simp

lemma in_matches_WordB: "st' \<in> set (matches WordB st) \<Longrightarrow> st' = st"
  by (cases st) (auto split: if_splits)

lemma in_matches_Grp:
  "st' \<in> set (matches (Grp i x) (b, r, c)) \<Longrightarrow>
     \<exists>b1 r1 c1. (b1, r1, c1) \<in> set (matches x (b, r, c)) \<and>
       st' = (b1, r1, (i, take (length r - length r1) r) # c1)"
  by auto

lemma in_matches_Cls_Star:
  assumes "(b1, r1, c1) \<in> set (matches (Seq (Cls k) (Star k')) (b, r, c))"
  shows "\<exists>x xs n. r = x # xs \<and> inCls k x \<and> n \<le> run k' xs \<and> r1 = drop n xs"
proof -
  from assms obtain st where st: "st \<in> set (matches (Cls k) (b, r, c))"
    and 2: "(b1, r1, c1) \<in> set (matches (Star k') st)"
    by auto
  from st obtain x xs where r: "r = x # xs" "inCls k x" and "st = (x # b, xs, c)"
    by (auto split: list.splits if_splits)
  with 2 have "(b1, r1, c1) \<in> (\<lambda>n. advance n (x # b, xs, c)) ` {0..<Suc (run k' xs)}"
    by (simp del: advance.simps upt_Suc)
  then obtain n where "n < Suc (run k' xs)" "(b1, r1, c1) = advance n (x # b, xs, c)"
    by auto
  then have "n < Suc (run k' xs)" "r1 = drop n xs" by simp_all
  with r show ?thesis by (intro exI [of _ x] exI [of _ xs] exI [of _ n]) simp
qed

lemma modelMethodRegex_name:
  assumes "(b', r', c') \<in> set (matches (modelMethodRegex ms) (b, r, []))"
  shows "\<exists>n. map_of c' 1 = Some n \<and> isIdentifier n"
proof -
  let ?name = "Seq (Cls (OneOf upperChars)) (Star (OneOf wordChars))"
  let ?tail = "Seq (Lit ''.'') (Seq (Grp 2 (alt (map Lit ms))) WordB)"
  have re: "modelMethodRegex ms = Seq WordB (Seq (Grp 1 ?name) ?tail)"
    by (simp add: modelMethodRegex_def)
  from assms have "(b', r', c') \<in> set (matches (Seq WordB (Seq (Grp 1 ?name) ?tail)) (b, r, []))"
    by (simp only: re)
  from this [THEN in_matches_Seq [THEN iffD1]] obtain st0 where
    0: "st0 \<in> set (matches WordB (b, r, []))" and
    "(b', r', c') \<in> set (matches (Seq (Grp 1 ?name) ?tail) st0)"
    by blast
  from this(2) [THEN in_matches_Seq [THEN iffD1]] obtain st1 where
    1: "st1 \<in> set (matches (Grp 1 ?name) st0)" and
    2: "(b', r', c') \<in> set (matches ?tail st1)"
    by blast
  from in_matches_WordB [OF 0] 1 have "st1 \<in> set (matches (Grp 1 ?name) (b, r, []))"
    by simp
  from in_matches_Grp [OF this] obtain b1 r1 c0 where
    3: "(b1, r1, c0) \<in> set (matches ?name (b, r, []))" and
    st1: "st1 = (b1, r1, (1, take (length r - length r1) r) # c0)"
    by blast
  from matches_groups [OF 3] have c0: "c0 = []" by simp
  from in_matches_Cls_Star [OF 3] obtain x xs n where r: "r = x # xs"
    and x: "x \<in> set upperChars"
    and n: "n \<le> run (OneOf wordChars) xs" and r1: "r1 = drop n xs"
    by auto
  from n run_le_length [of "OneOf wordChars" xs] have "n \<le> length xs" by simp
  with r r1 have cap: "take (length r - length r1) r = x # take n xs"
    by (simp add: Suc_diff_le)
  from take_run [OF n] have "list_all isWord (take n xs)"
    by (simp add: list_all_iff isWord_def)
  with x have id: "isIdentifier (x # take n xs)"
    by (simp add: isIdentifier_def upper_isWord)
  from matches_groups [of b' r' c' ?tail b1 r1 "(1, take (length r - length r1) r) # c0"] 2 st1
  obtain new where new: "c' = new @ [(1, x # take n xs)]" "fst ` set new \<subseteq> groupsOf ?tail"
    by (auto simp: cap c0)
  from new(2) have "fst ` set new \<subseteq> {2}" by (simp add: groupsOf_alt_Lit)
  from map_of_other [OF this, of 1 "[(1, x # take n xs)]"]
  have "map_of (new @ [(1, x # take n xs)]) 1 = map_of [(1, x # take n xs)] 1"
    by (simp del: map_of_append)
  with new(1) have "map_of c' 1 = Some (x # take n xs)"
    by (simp del: map_of_append)
  with id show ?thesis by blast
qed

lemma matchAt_modelMethodRegex:
  assumes "matchAt (modelMethodRegex ms) b r = Some m"
  shows "\<exists>n. group m 1 = Some n \<and> isIdentifier n"
proof -
  from assms obtain b' r' c' rest where
    ms: "matches (modelMethodRegex ms) (b, r, []) = (b', r', c') # rest" and
    m: "groups m = c'"
    by (auto simp: matchAt_def split: list.splits)
  from ms have "(b', r', c') \<in> set (matches (modelMethodRegex ms) (b, r, []))" by simp
  from modelMethodRegex_name [OF this] m show ?thesis by (simp add: group_def)
qed

lemma lineUsages_names: "u \<in> set (lineUsages ms i b r) \<Longrightarrow> isIdentifier (uModelName u)"
proof (induction ms i b r rule: lineUsages.induct)
  case (1 ms i b r)
  from "1.prems" obtain m where m: "search (modelMethodRegex ms) b r = Some m"
    and u: "u = usageOf i m \<or> u \<in> set (lineUsages ms i (before m) (after m))"
    using lineUsages.simps [of ms i b r] by (auto split: option.splits)
  from u show ?case
  proof
    assume u: "u = usageOf i m"
    from search_matchAt [OF m] obtain p s where
      "matchAt (modelMethodRegex ms) (rev p @ b) s = Some m" by blast
    from matchAt_modelMethodRegex [OF this] u show ?thesis
      by (auto simp: usageOf_def Let_def)
  next
    assume "u \<in> set (lineUsages ms i (before m) (after m))"
    with "1.IH" [OF m] show ?thesis .
  qed
qed

lemma usageLoop_names:
  "u \<in> set (usageLoop ms i inC lines) \<Longrightarrow> isIdentifier (uModelName u)"
  by (induction lines arbitrary: i inC)
    (auto simp: Let_def split: if_splits dest: lineUsages_names)

lemma findModelMethodUsages_names:
  "u \<in> set (findModelMethodUsages text ms) \<Longrightarrow> isIdentifier (uModelName u)"
  by (auto simp: findModelMethodUsages_def dest: usageLoop_names)

lemma provideCodeActions_diagnostics:
  "list_all (\<lambda>u. isIdentifier (uModelName u)) us \<Longrightarrow>
     provideCodeActions doc (map diagnosticOf us) =
       map (\<lambda>u. createImportAction doc (diagnosticOf u) (uModelName u) Default) us"
proof (induction us)
  case Nil
  then show ?case by simp
next
  case (Cons u us)
  then have id: "isIdentifier (uModelName u)" by simp
  from extract_notImported [OF id] id Cons show ?case
    by (simp add: diagnosticOf_def isIdentifier_def)
qed

text \<open>
  C9 (the message and the quick fix agree). For every name \<open>N\<close> of one or more word
  characters the name read back from the message for \<open>N\<close> is \<open>N\<close>. Every name
  the usage scanner reports is such a name, so for every diagnostic of a scan the name
  read back is the name of the usage it reports, and \<open>provideCodeActions\<close> answers
  the diagnostics of a scan with one import action each, for that same name.
\<close>

theorem message_round_trip:
  "(isIdentifier N \<longrightarrow> extractModelName (notImportedMessage N) = Some N) \<and>
   list_all (\<lambda>u. isIdentifier (uModelName u)) (findModelMethodUsages text ms) \<and>
   map (\<lambda>d. extractModelName (dMessage d)) (scan text ms) =
     map (\<lambda>u. Some (uModelName u)) (unresolvedUsages text ms) \<and>
   provideCodeActions doc (scan text ms) =
     map (\<lambda>u. createImportAction doc (diagnosticOf u) (uModelName u) Default)
       (unresolvedUsages text ms)"
proof -
  have all: "list_all (\<lambda>u. isIdentifier (uModelName u)) (findModelMethodUsages text ms)"
    by (auto simp: list_all_iff dest: findModelMethodUsages_names)
  then have un: "list_all (\<lambda>u. isIdentifier (uModelName u)) (unresolvedUsages text ms)"
    by (simp add: unresolvedUsages_def list_all_iff)
  then have "map (\<lambda>d. extractModelName (dMessage d)) (scan text ms) =
      map (\<lambda>u. Some (uModelName u)) (unresolvedUsages text ms)"
    by (auto simp: scan_unresolved diagnosticOf_def list_all_iff extract_notImported)
  with all provideCodeActions_diagnostics [OF un] show ?thesis
    by (simp add: scan_unresolved extract_notImported)
qed

text \<open>
  C9 at the name \<open>User\<close> and at scenario A: the name read back from the message is
  \<open>User\<close>, and the one action inserts the import of \<open>User\<close>.
\<close>

theorem message_round_trip_witness:
  "isIdentifier ''User'' \<and>
   extractModelName
     ''Model 'User' is not imported. Please import the model before using it.'' = Some ''User'' \<and>
   map (\<lambda>a. eText (edit a))
     (provideCodeActions (jsDocument scenarioA) (scan scenarioA defaultMethods)) =
     [''import User from '' @ [dq] @ ''./models/User'' @ [dq] @ '';'' @ [newline]]"
proof -
  have id: "isIdentifier ''User''"
    by (simp add: isIdentifier_def isWord_def wordChars_def)
  from message_round_trip [of "''User''" scenarioA defaultMethods "jsDocument scenarioA"] id
  show ?thesis
    by (simp add: notImportedMessage_def scenarioA_usages createImportAction_def Let_def)
qed

section \<open>Names, white space and the string operations\<close>

lemma isWord_not_space: "isWord c \<Longrightarrow> \<not> isSpace c"
  by (auto simp: isWord_def wordChars_def isSpace_def)

lemma isWord_not_punct:
  "isWord c \<Longrightarrow> c \<noteq> CHR '','' \<and> c \<noteq> CHR ''}'' \<and> c \<noteq> CHR '':'' \<and> c \<noteq> CHR ''{''"
  by (auto simp: isWord_def wordChars_def)

lemma isIdentifier_ends:
  assumes "isIdentifier n"
  shows "n \<noteq> []" "isWord (hd n)" "isWord (last n)"
  using assms by (auto simp: isIdentifier_def list_all_iff)

lemma isIdentifier_chars:
  assumes "isIdentifier n"
  shows "list_all isWord n" "CHR '','' \<notin> set n" "CHR ''}'' \<notin> set n"
    "list_all (\<lambda>c. \<not> isSpace c) n" "list_all (\<lambda>c. \<not> isSpace c \<and> c \<noteq> CHR '':'') n"
  using assms by (auto simp: isIdentifier_def list_all_iff dest: isWord_not_space isWord_not_punct)

lemma dropWhile_all: "list_all P u \<Longrightarrow> dropWhile P (u @ v) = dropWhile P v"
  by (induction u) simp_all

lemma dropWhile_hd: "s \<noteq> [] \<Longrightarrow> \<not> P (hd s) \<Longrightarrow> dropWhile P (s @ v) = s @ v"
  by (cases s) simp_all

lemma trim_padded:
  assumes "list_all isSpace u" "list_all isSpace w"
    and "s \<noteq> []" "\<not> isSpace (hd s)" "\<not> isSpace (last s)"
  shows "trim (u @ s @ w) = s"
proof -
  from assms have 1: "dropWhile isSpace (u @ s @ w) = s @ w"
    by (simp add: dropWhile_all dropWhile_hd)
  from assms(2) have "list_all isSpace (rev w)" by (simp add: list_all_iff)
  then have "dropWhile isSpace (rev w @ rev s) = dropWhile isSpace (rev s @ [])"
    by (simp add: dropWhile_all)
  also from assms(3-5) have "\<dots> = rev s @ []"
    by (intro dropWhile_hd) (simp_all add: hd_rev)
  finally show ?thesis by (simp add: trim_def 1)
qed

lemma trim_plain:
  "s \<noteq> [] \<Longrightarrow> \<not> isSpace (hd s) \<Longrightarrow> \<not> isSpace (last s) \<Longrightarrow> trim s = s"
  using trim_padded [of "[]" "[]" s] by simp

lemma splitOn_none: "sep \<notin> set u \<Longrightarrow> splitOn sep u = [u]"
  by (induction u) auto

lemma splitOn_append: "sep \<notin> set u \<Longrightarrow> splitOn sep (u @ sep # v) = u # splitOn sep v"
  by (induction u) auto

section \<open>Splitting an entry at its rename\<close>

lemma splitLoop_skip:
  assumes none: "\<And>c r b. P c \<Longrightarrow> matchAt e b (c # r) = None"
  shows "list_all P u \<Longrightarrow>
     splitLoop e piece b (u @ v) = splitLoop e (rev u @ piece) (rev u @ b) v"
  by (induction u arbitrary: piece b) (simp_all add: none)

lemma asRe_none: "\<not> isSpace c \<Longrightarrow> matchAt asRe b (c # r) = None"
  by (simp add: matchAt_def asRe_def run_def)

lemma colonRe_none: "\<not> isSpace c \<and> c \<noteq> CHR '':'' \<Longrightarrow> matchAt colonRe b (c # r) = None"
  by (simp add: matchAt_def colonRe_def run_def startsWith_def)

lemma list_all_Space: "list_all (inCls Space) n = list_all isSpace n"
  by (simp add: list_all_iff)

lemma stops_Space: "n \<noteq> [] \<Longrightarrow> \<not> isSpace (hd n) \<Longrightarrow> stops Space (n @ r)"
  by (cases n) (simp_all add: stops_def)

lemma asRe_match:
  assumes "s1 \<noteq> []" "list_all isSpace s1" "s2 \<noteq> []" "list_all isSpace s2"
    and "r \<noteq> []" "\<not> isSpace (hd r)"
  shows "matchAt asRe b (s1 @ ''as'' @ s2 @ r) =
     Some \<lparr>index = length b, before = rev s2 @ rev ''as'' @ rev s1 @ b, after = r, groups = []\<rparr>"
proof -
  have re: "asRe = Seq (Plus Space) (Seq (Lit ''as'') (Plus Space))"
    by (simp add: asRe_def)
  have 1: "first (Plus Space) (b, s1 @ ''as'' @ s2 @ r, []) = Some (rev s1 @ b, ''as'' @ s2 @ r, [])"
    using assms(1,2) by (intro first_Plus) (simp_all add: list_all_Space stops_def isSpace_def)
  have 2: "first (Lit ''as'') (rev s1 @ b, ''as'' @ s2 @ r, []) =
      Some (rev ''as'' @ rev s1 @ b, s2 @ r, [])"
    by (rule first_Lit)
  have 3: "first (Plus Space) (rev ''as'' @ rev s1 @ b, s2 @ r, []) =
      Some (rev s2 @ rev ''as'' @ rev s1 @ b, r, [])"
    using assms(3-6) stops_Space [of r "[]"]
    by (intro first_Plus [where v = r]) (simp_all add: list_all_Space)
  from first_Seq [OF 1 first_Seq [OF 2 3]]
  have "first asRe (b, s1 @ ''as'' @ s2 @ r, []) =
      Some (rev s2 @ rev ''as'' @ rev s1 @ b, r, [])"
    by (simp only: re)
  from matchAt_first [OF this] show ?thesis .
qed

lemma colonRe_match:
  assumes "list_all isSpace s1" "list_all isSpace s2" "r \<noteq> []" "\<not> isSpace (hd r)"
  shows "matchAt colonRe b (s1 @ '':'' @ s2 @ r) =
     Some \<lparr>index = length b, before = rev s2 @ rev '':'' @ rev s1 @ b, after = r, groups = []\<rparr>"
proof -
  have re: "colonRe = Seq (Star Space) (Seq (Lit '':'') (Star Space))"
    by (simp add: colonRe_def)
  have 1: "first (Star Space) (b, s1 @ '':'' @ s2 @ r, []) = Some (rev s1 @ b, '':'' @ s2 @ r, [])"
    using assms(1) by (intro first_Star) (simp_all add: list_all_Space stops_def isSpace_def)
  have 2: "first (Lit '':'') (rev s1 @ b, '':'' @ s2 @ r, []) =
      Some (rev '':'' @ rev s1 @ b, s2 @ r, [])"
    by (rule first_Lit)
  have 3: "first (Star Space) (rev '':'' @ rev s1 @ b, s2 @ r, []) =
      Some (rev s2 @ rev '':'' @ rev s1 @ b, r, [])"
    using assms(2-4) stops_Space [of r "[]"]
    by (intro first_Star [where v = r]) (simp_all add: list_all_Space)
  from first_Seq [OF 1 first_Seq [OF 2 3]]
  have "first colonRe (b, s1 @ '':'' @ s2 @ r, []) =
      Some (rev s2 @ rev '':'' @ rev s1 @ b, r, [])"
    by (simp only: re)
  from matchAt_first [OF this] show ?thesis .
qed

text \<open>A name with no rename is one piece; a renamed one splits at the rename.\<close>

lemma splitRe_plain:
  assumes none: "\<And>c r b. P c \<Longrightarrow> matchAt e b (c # r) = None"
    and "list_all P n" "n \<noteq> []"
  shows "splitRe e n = [n]"
  using splitLoop_skip [of P e n "[]" "[]" "[]", OF none] assms(2,3)
  by (simp add: splitRe_def)

lemma splitRe_renamed:
  assumes none: "\<And>c r b. P c \<Longrightarrow> matchAt e b (c # r) = None"
    and hit: "\<And>b. matchAt e b (sep @ y) =
        Some \<lparr>index = length b, before = rev sep @ b, after = y, groups = []\<rparr>"
    and "list_all P x" "x \<noteq> []" "list_all P y" "sep \<noteq> []"
  shows "splitRe e (x @ sep @ y) = [x, y]"
proof -
  from assms(6) obtain c s where sep: "sep = c # s" by (cases sep) auto
  have "splitRe e (x @ sep @ y) = splitLoop e [] [] (x @ sep @ y)"
    using assms(4) by (simp add: splitRe_def)
  also have "\<dots> = splitLoop e (rev x) (rev x) (sep @ y)"
    using splitLoop_skip [of P e x "[]" "[]" "sep @ y", OF none] assms(3) by simp
  also have "\<dots> = x # splitLoop e [] (rev sep @ rev x) y"
    using hit [of "rev x"] by (simp add: sep)
  also have "splitLoop e [] (rev sep @ rev x) y = [y]"
    using splitLoop_skip [of P e y "[]" "rev sep @ rev x" "[]", OF none] assms(5) by simp
  finally show ?thesis .
qed

lemma leftName_plain:
  assumes "isIdentifier n" "list_all isSpace u" "list_all isSpace w"
  shows "leftName asRe (u @ n @ w) = n" "leftName colonRe (u @ n @ w) = n"
proof -
  note e = isIdentifier_ends [OF assms(1)] and c = isIdentifier_chars [OF assms(1)]
  from e have ends: "\<not> isSpace (hd n)" "\<not> isSpace (last n)"
    by (simp_all add: isWord_not_space)
  have t: "trim (u @ n @ w) = n" "trim n = n"
    using trim_padded [OF assms(2,3) e(1) ends] trim_plain [OF e(1) ends] by simp_all
  have "splitRe asRe n = [n]"
    by (rule splitRe_plain [OF asRe_none c(4) e(1)])
  then show "leftName asRe (u @ n @ w) = n" by (simp add: leftName_def t)
  have "splitRe colonRe n = [n]"
    by (rule splitRe_plain [OF colonRe_none c(5) e(1)])
  then show "leftName colonRe (u @ n @ w) = n" by (simp add: leftName_def t)
qed

lemma leftName_as:
  assumes "isIdentifier x" "isIdentifier y" "list_all isSpace u" "list_all isSpace w"
    and "s1 \<noteq> []" "list_all isSpace s1" "s2 \<noteq> []" "list_all isSpace s2"
  shows "leftName asRe (u @ (x @ s1 @ ''as'' @ s2 @ y) @ w) = x"
proof -
  note ex = isIdentifier_ends [OF assms(1)] and cx = isIdentifier_chars [OF assms(1)]
  note ey = isIdentifier_ends [OF assms(2)] and cy = isIdentifier_chars [OF assms(2)]
  let ?s = "x @ s1 @ ''as'' @ s2 @ y"
  from ex ey have "?s \<noteq> []" "\<not> isSpace (hd ?s)" "\<not> isSpace (last ?s)"
    by (simp_all add: isWord_not_space)
  from trim_padded [OF assms(3,4) this] have t: "trim (u @ ?s @ w) = ?s" .
  from ex have tx: "trim x = x" by (intro trim_plain) (simp_all add: isWord_not_space)
  have hit: "matchAt asRe b ((s1 @ ''as'' @ s2) @ y) =
      Some \<lparr>index = length b, before = rev (s1 @ ''as'' @ s2) @ b, after = y, groups = []\<rparr>" for b
    using asRe_match [OF assms(5-8) ey(1), of b] ey(2) by (simp add: isWord_not_space)
  have "splitRe asRe (x @ (s1 @ ''as'' @ s2) @ y) = [x, y]"
    using assms(5) by (intro splitRe_renamed [OF asRe_none hit cx(4) ex(1) cy(4)]) simp_all
  then have sp: "splitRe asRe ?s = [x, y]" by simp
  show ?thesis unfolding leftName_def t sp by (simp add: tx)
qed

lemma leftName_colon:
  assumes "isIdentifier x" "isIdentifier y" "list_all isSpace u" "list_all isSpace w"
    and "list_all isSpace s1" "list_all isSpace s2"
  shows "leftName colonRe (u @ (x @ s1 @ '':'' @ s2 @ y) @ w) = x"
proof -
  note ex = isIdentifier_ends [OF assms(1)] and cx = isIdentifier_chars [OF assms(1)]
  note ey = isIdentifier_ends [OF assms(2)] and cy = isIdentifier_chars [OF assms(2)]
  let ?s = "x @ s1 @ '':'' @ s2 @ y"
  from ex ey have "?s \<noteq> []" "\<not> isSpace (hd ?s)" "\<not> isSpace (last ?s)"
    by (simp_all add: isWord_not_space)
  from trim_padded [OF assms(3,4) this] have t: "trim (u @ ?s @ w) = ?s" .
  from ex have tx: "trim x = x" by (intro trim_plain) (simp_all add: isWord_not_space)
  have hit: "matchAt colonRe b ((s1 @ '':'' @ s2) @ y) =
      Some \<lparr>index = length b, before = rev (s1 @ '':'' @ s2) @ b, after = y, groups = []\<rparr>" for b
    using colonRe_match [OF assms(5,6) ey(1), of b] ey(2) by (simp add: isWord_not_space)
  have "splitRe colonRe (x @ (s1 @ '':'' @ s2) @ y) = [x, y]"
    by (intro splitRe_renamed [OF colonRe_none hit cx(5) ex(1) cy(5)]) simp_all
  then have sp: "splitRe colonRe ?s = [x, y]" by simp
  show ?thesis unfolding leftName_def t sp by (simp add: tx)
qed

section \<open>Chains of first ways\<close>

lemma reaches_Lit: "reaches (Lit l) (l @ r) c r c"
  by (simp add: reaches_def first_Lit)

lemma reaches_Cls: "inCls k x \<Longrightarrow> reaches (Cls k) (x # r) c r c"
  by (simp add: reaches_def first_Cls)

lemma reaches_Plus:
  "u \<noteq> [] \<Longrightarrow> list_all (inCls k) u \<Longrightarrow> stops k v \<Longrightarrow> reaches (Plus k) (u @ v) c v c"
  by (simp add: reaches_def first_Plus)

lemma reaches_Star: "list_all (inCls k) u \<Longrightarrow> stops k v \<Longrightarrow> reaches (Star k) (u @ v) c v c"
  by (simp add: reaches_def first_Star)

lemma reaches_Seq:
  assumes "reaches x r c r1 c1" "reaches y r1 c1 r2 c2"
  shows "reaches (Seq x y) r c r2 c2"
  unfolding reaches_def
proof
  fix b
  from assms(1) obtain b1 where 1: "first x (b, r, c) = Some (b1, r1, c1)"
    unfolding reaches_def by blast
  from assms(2) obtain b2 where 2: "first y (b1, r1, c1) = Some (b2, r2, c2)"
    unfolding reaches_def by blast
  from first_Seq [OF 1 2] show "\<exists>b'. first (Seq x y) (b, r, c) = Some (b', r2, c2)" ..
qed

lemma reaches_Alt1:
  assumes "reaches x r c r' c'"
  shows "reaches (Alt x y) r c r' c'"
  unfolding reaches_def
proof
  fix b
  from assms obtain b1 where "first x (b, r, c) = Some (b1, r', c')"
    unfolding reaches_def by blast
  from first_Alt1 [OF this] show "\<exists>b'. first (Alt x y) (b, r, c) = Some (b', r', c')" ..
qed

lemma reaches_Alt2:
  "(\<And>b. matches x (b, r, c) = []) \<Longrightarrow> reaches y r c r' c' \<Longrightarrow> reaches (Alt x y) r c r' c'"
  unfolding reaches_def by (simp add: first_Alt2)

lemma reaches_Grp:
  assumes "reaches x r c r' c'"
  shows "reaches (Grp i x) r c r' ((i, take (length r - length r') r) # c')"
  unfolding reaches_def
proof
  fix b
  from assms obtain b1 where "first x (b, r, c) = Some (b1, r', c')"
    unfolding reaches_def by blast
  from first_Grp [OF this]
  show "\<exists>b'. first (Grp i x) (b, r, c) = Some (b', r', (i, take (length r - length r') r) # c')" ..
qed

lemma reaches_matchAt:
  assumes "reaches e r [] r' c'"
  shows "\<exists>m. matchAt e b r = Some m \<and> groups m = c'"
proof -
  from assms obtain b' where "first e (b, r, []) = Some (b', r', c')"
    unfolding reaches_def by blast
  from matchAt_first [OF this] show ?thesis by simp
qed

lemma isSpace_not_word: "isSpace c \<Longrightarrow> \<not> isWord c"
  using isWord_not_space by blast

lemma stops_after_space:
  "list_all isSpace w \<Longrightarrow> w \<noteq> [] \<Longrightarrow> stops Word (w @ r)"
  by (cases w) (simp_all add: stops_def isSpace_not_word)

section \<open>The import pattern on an import\<close>

lemma from_tail:
  assumes "w2 \<noteq> []" "list_all isSpace w2" "w3 \<noteq> []" "list_all isSpace w3" "q = sq \<or> q = dq"
  shows "reaches (Seq (Plus Space) (Seq (Lit ''from'') (Seq (Plus Space) (Cls (OneOf [sq, dq])))))
           (w2 @ ''from'' @ w3 @ q # rest) c rest c"
proof -
  have 1: "reaches (Plus Space) (w2 @ ''from'' @ w3 @ q # rest) c (''from'' @ w3 @ q # rest) c"
    using assms(1,2) by (intro reaches_Plus) (simp_all add: list_all_Space stops_def isSpace_def)
  have 2: "reaches (Lit ''from'') (''from'' @ w3 @ q # rest) c (w3 @ q # rest) c"
    by (rule reaches_Lit)
  have 3: "reaches (Plus Space) (w3 @ q # rest) c (q # rest) c"
    using assms(3-5) by (intro reaches_Plus) (auto simp: list_all_Space stops_def isSpace_def)
  have 4: "reaches (Cls (OneOf [sq, dq])) (q # rest) c rest c"
    using assms(5) by (intro reaches_Cls) auto
  from reaches_Seq [OF 1 reaches_Seq [OF 2 reaches_Seq [OF 3 4]]] show ?thesis .
qed

lemma es6ImportRe_unfold:
  "es6ImportRe =
     Seq (Lit ''import'') (Seq (Plus Space)
       (Seq (Alt (Grp 1 (Plus Word))
              (Alt (Seq (Lit ''{'') (Seq (Grp 2 (Plus (NoneOf ''}''))) (Lit ''}'')))
                   (Seq (Lit ''*'') (Seq (Plus Space) (Seq (Lit ''as'') (Seq (Plus Space)
                      (Grp 3 (Plus Word))))))))
         (Seq (Plus Space) (Seq (Lit ''from'') (Seq (Plus Space) (Cls (OneOf [sq, dq])))))))"
  by (simp add: es6ImportRe_def)

lemma es6_default:
  assumes "isIdentifier X" "w1 \<noteq> []" "list_all isSpace w1"
    and "w2 \<noteq> []" "list_all isSpace w2" "w3 \<noteq> []" "list_all isSpace w3" "q = sq \<or> q = dq"
  shows "reaches es6ImportRe (''import'' @ w1 @ X @ w2 @ ''from'' @ w3 @ q # rest) []
           rest [(1, X)]"
proof -
  note e = isIdentifier_ends [OF assms(1)] and c = isIdentifier_chars [OF assms(1)]
  let ?r2 = "w2 @ ''from'' @ w3 @ q # rest"
  have 1: "reaches (Lit ''import'') (''import'' @ w1 @ X @ ?r2) [] (w1 @ X @ ?r2) []"
    by (rule reaches_Lit)
  have 2: "reaches (Plus Space) (w1 @ X @ ?r2) [] (X @ ?r2) []"
    using assms(2,3) e stops_Space [of X ?r2]
    by (intro reaches_Plus) (simp_all add: list_all_Space isWord_not_space)
  have "reaches (Plus Word) (X @ ?r2) [] ?r2 []"
    using e c(1) stops_after_space [OF assms(5,4)]
    by (intro reaches_Plus) (simp_all add: list_all_iff)
  from reaches_Grp [OF this, of 1]
  have 3: "reaches (Grp 1 (Plus Word)) (X @ ?r2) [] ?r2 [(1, X)]" by simp
  from reaches_Seq [OF 1 reaches_Seq [OF 2 reaches_Seq [OF reaches_Alt1 [OF 3] from_tail [OF assms(4-8)]]]]
  show ?thesis by (simp only: es6ImportRe_unfold)
qed

lemma no_name_at_brace: "matches (Grp 1 (Plus Word)) (b, ''{'' @ r, c) = []"
  by (simp add: run_def isWord_def wordChars_def)

lemma braces:
  assumes "inner \<noteq> []" "CHR ''}'' \<notin> set inner"
  shows "reaches (Seq (Lit ''{'') (Seq (Grp 2 (Plus (NoneOf ''}''))) (Lit ''}'')))
           (''{'' @ inner @ ''}'' @ r) c r ((2, inner) # c)"
proof -
  have 1: "reaches (Lit ''{'') (''{'' @ inner @ ''}'' @ r) c (inner @ ''}'' @ r) c"
    by (rule reaches_Lit)
  have "reaches (Plus (NoneOf ''}'')) (inner @ ''}'' @ r) c (''}'' @ r) c"
    using assms by (intro reaches_Plus) (auto simp: list_all_iff stops_def)
  from reaches_Grp [OF this, of 2]
  have 2: "reaches (Grp 2 (Plus (NoneOf ''}''))) (inner @ ''}'' @ r) c (''}'' @ r) ((2, inner) # c)"
    by simp
  have 3: "reaches (Lit ''}'') (''}'' @ r) ((2, inner) # c) r ((2, inner) # c)"
    by (rule reaches_Lit)
  from reaches_Seq [OF 1 reaches_Seq [OF 2 3]] show ?thesis .
qed

lemma es6_named:
  assumes "inner \<noteq> []" "CHR ''}'' \<notin> set inner" "w1 \<noteq> []" "list_all isSpace w1"
    and "w2 \<noteq> []" "list_all isSpace w2" "w3 \<noteq> []" "list_all isSpace w3" "q = sq \<or> q = dq"
  shows "reaches es6ImportRe
           (''import'' @ w1 @ ''{'' @ inner @ ''}'' @ w2 @ ''from'' @ w3 @ q # rest) []
           rest [(2, inner)]"
proof -
  let ?r2 = "w2 @ ''from'' @ w3 @ q # rest"
  let ?r1 = "''{'' @ inner @ ''}'' @ ?r2"
  have 1: "reaches (Lit ''import'') (''import'' @ w1 @ ?r1) [] (w1 @ ?r1) []"
    by (rule reaches_Lit)
  have 2: "reaches (Plus Space) (w1 @ ?r1) [] ?r1 []"
    using assms(3,4) by (intro reaches_Plus) (simp_all add: list_all_Space stops_def isSpace_def)
  have 3: "reaches (Alt (Grp 1 (Plus Word))
              (Alt (Seq (Lit ''{'') (Seq (Grp 2 (Plus (NoneOf ''}''))) (Lit ''}''))) z))
            ?r1 [] ?r2 [(2, inner)]" for z
    by (intro reaches_Alt2 reaches_Alt1 braces [OF assms(1,2)] no_name_at_brace)
  from reaches_Seq [OF 1 reaches_Seq [OF 2 reaches_Seq [OF 3 from_tail [OF assms(5-9)]]]]
  show ?thesis by (simp only: es6ImportRe_unfold)
qed

section \<open>The require pattern on a require\<close>

lemma requireRe_unfold:
  "requireRe =
     Seq (Alt (Lit ''const'') (Alt (Lit ''let'') (Lit ''var''))) (Seq (Plus Space)
       (Seq (Alt (Grp 1 (Plus Word))
              (Seq (Lit ''{'') (Seq (Grp 2 (Plus (NoneOf ''}''))) (Lit ''}''))))
         (Seq (Star Space) (Seq (Lit ''='') (Seq (Star Space) (Seq (Lit ''require'')
           (Seq (Star Space) (Lit ''(''))))))))"
  by (simp add: requireRe_def)

lemma require_tail:
  assumes "list_all isSpace w2" "list_all isSpace w3" "list_all isSpace w4"
  shows "reaches (Seq (Star Space) (Seq (Lit ''='') (Seq (Star Space) (Seq (Lit ''require'')
           (Seq (Star Space) (Lit ''(''))))))
           (w2 @ ''='' @ w3 @ ''require'' @ w4 @ ''('' @ rest) c rest c"
proof -
  let ?r4 = "w4 @ ''('' @ rest"
  let ?r3 = "w3 @ ''require'' @ ?r4"
  have 1: "reaches (Star Space) (w2 @ ''='' @ ?r3) c (''='' @ ?r3) c"
    using assms(1) by (intro reaches_Star) (simp_all add: list_all_Space stops_def isSpace_def)
  have 2: "reaches (Lit ''='') (''='' @ ?r3) c ?r3 c"
    by (rule reaches_Lit)
  have 3: "reaches (Star Space) ?r3 c (''require'' @ ?r4) c"
    using assms(2) by (intro reaches_Star) (simp_all add: list_all_Space stops_def isSpace_def)
  have 4: "reaches (Lit ''require'') (''require'' @ ?r4) c ?r4 c"
    by (rule reaches_Lit)
  have 5: "reaches (Star Space) ?r4 c (''('' @ rest) c"
    using assms(3) by (intro reaches_Star) (simp_all add: list_all_Space stops_def isSpace_def)
  have 6: "reaches (Lit ''('') (''('' @ rest) c rest c"
    by (rule reaches_Lit)
  from reaches_Seq [OF 1 reaches_Seq [OF 2 reaches_Seq [OF 3 reaches_Seq [OF 4 reaches_Seq [OF 5 6]]]]]
  show ?thesis .
qed

lemma declaration_keyword:
  assumes "kw \<in> set [''const'', ''let'', ''var'']"
  shows "reaches (Alt (Lit ''const'') (Alt (Lit ''let'') (Lit ''var''))) (kw @ r) c r c"
proof -
  let ?kw = "Alt (Lit ''const'') (Alt (Lit ''let'') (Lit ''var''))"
  have 1: "reaches ?kw (''const'' @ r) c r c"
    by (intro reaches_Alt1 reaches_Lit)
  have "matches (Lit ''const'') (b, ''let'' @ r, c) = []" for b
    by (simp add: startsWith_def)
  then have 2: "reaches ?kw (''let'' @ r) c r c"
    by (intro reaches_Alt2 reaches_Alt1 reaches_Lit)
  have "matches (Lit ''const'') (b, ''var'' @ r, c) = []"
    "matches (Lit ''let'') (b, ''var'' @ r, c) = []" for b
    by (simp_all add: startsWith_def)
  then have 3: "reaches ?kw (''var'' @ r) c r c"
    by (intro reaches_Alt2 reaches_Lit)
  from assms have "kw = ''const'' \<or> kw = ''let'' \<or> kw = ''var''" by simp
  with 1 2 3 show ?thesis by blast
qed

lemma const_keyword: "''const'' \<in> set [''const'', ''let'', ''var'']"
  by simp

lemma require_single:
  assumes "kw \<in> set [''const'', ''let'', ''var'']"
    and "isIdentifier X" "w1 \<noteq> []" "list_all isSpace w1"
    and "list_all isSpace w2" "list_all isSpace w3" "list_all isSpace w4"
  shows "reaches requireRe
           (kw @ w1 @ X @ w2 @ ''='' @ w3 @ ''require'' @ w4 @ ''('' @ rest) []
           rest [(1, X)]"
proof -
  note e = isIdentifier_ends [OF assms(2)] and c = isIdentifier_chars [OF assms(2)]
  let ?r2 = "w2 @ ''='' @ w3 @ ''require'' @ w4 @ ''('' @ rest"
  have 2: "reaches (Plus Space) (w1 @ X @ ?r2) [] (X @ ?r2) []"
    using assms(3,4) e stops_Space [of X ?r2]
    by (intro reaches_Plus) (simp_all add: list_all_Space isWord_not_space)
  have stop: "stops Word ?r2"
  proof (cases w2)
    case Nil
    then show ?thesis by (simp add: stops_def isWord_def wordChars_def)
  next
    case (Cons x xs)
    with assms(5) stops_after_space [of w2] show ?thesis by simp
  qed
  have "reaches (Plus Word) (X @ ?r2) [] ?r2 []"
    using e c(1) stop by (intro reaches_Plus) (simp_all add: list_all_iff)
  from reaches_Grp [OF this, of 1]
  have 3: "reaches (Grp 1 (Plus Word)) (X @ ?r2) [] ?r2 [(1, X)]" by simp
  from reaches_Seq [OF declaration_keyword [OF assms(1)] reaches_Seq [OF 2
    reaches_Seq [OF reaches_Alt1 [OF 3] require_tail [OF assms(5-7)]]]]
  show ?thesis by (simp only: requireRe_unfold)
qed

lemma require_destructured:
  assumes "kw \<in> set [''const'', ''let'', ''var'']"
    and "inner \<noteq> []" "CHR ''}'' \<notin> set inner" "w1 \<noteq> []" "list_all isSpace w1"
    and "list_all isSpace w2" "list_all isSpace w3" "list_all isSpace w4"
  shows "reaches requireRe
           (kw @ w1 @ ''{'' @ inner @ ''}'' @ w2 @ ''='' @ w3 @ ''require'' @ w4 @ ''('' @ rest) []
           rest [(2, inner)]"
proof -
  let ?r2 = "w2 @ ''='' @ w3 @ ''require'' @ w4 @ ''('' @ rest"
  let ?r1 = "''{'' @ inner @ ''}'' @ ?r2"
  have 2: "reaches (Plus Space) (w1 @ ?r1) [] ?r1 []"
    using assms(4,5) by (intro reaches_Plus) (simp_all add: list_all_Space stops_def isSpace_def)
  have 3: "reaches (Alt (Grp 1 (Plus Word))
              (Seq (Lit ''{'') (Seq (Grp 2 (Plus (NoneOf ''}''))) (Lit ''}''))))
            ?r1 [] ?r2 [(2, inner)]"
    by (intro reaches_Alt2 braces [OF assms(2,3)] no_name_at_brace)
  from reaches_Seq [OF declaration_keyword [OF assms(1)] reaches_Seq [OF 2 reaches_Seq [OF 3
    require_tail [OF assms(6-8)]]]]
  show ?thesis by (simp only: requireRe_unfold)
qed

section \<open>The names of an import line and of a require line\<close>

lemma match_reaches:
  assumes "reaches e line [] r' c'"
  shows "\<exists>m. match e line = Some m \<and> groups m = c'"
proof -
  from reaches_matchAt [OF assms, of "[]"] obtain m where
    "matchAt e [] line = Some m" "groups m = c'" by blast
  with search_here [of e "[]" line m] show ?thesis by (simp add: match_def)
qed

lemma space_facts: "'' '' \<noteq> []" "list_all isSpace '' ''" "list_all isSpace []"
  by (simp_all add: isSpace_def)

lemma es6Names_named:
  assumes "inner \<noteq> []" "CHR ''}'' \<notin> set inner" "w1 \<noteq> []" "list_all isSpace w1"
    and "w2 \<noteq> []" "list_all isSpace w2" "w3 \<noteq> []" "list_all isSpace w3" "q = sq \<or> q = dq"
  shows "es6Names (''import'' @ w1 @ ''{'' @ inner @ ''}'' @ w2 @ ''from'' @ w3 @ q # rest) =
     map (leftName asRe) (splitOn CHR '','' inner)"
proof -
  from match_reaches [OF es6_named [OF assms]] obtain m where
    "match es6ImportRe (''import'' @ w1 @ ''{'' @ inner @ ''}'' @ w2 @ ''from'' @ w3 @ q # rest) = Some m"
    "groups m = [(2, inner)]" by blast
  with assms(1) show ?thesis
    by (simp add: es6Names_def group_def whenTruthy_def)
qed

lemma es6Names_default:
  assumes "isIdentifier X" "w1 \<noteq> []" "list_all isSpace w1"
    and "w2 \<noteq> []" "list_all isSpace w2" "w3 \<noteq> []" "list_all isSpace w3" "q = sq \<or> q = dq"
  shows "\<exists>m. matchAt es6ImportRe b (''import'' @ w1 @ X @ w2 @ ''from'' @ w3 @ q # rest) = Some m \<and>
     groups m = [(1, X)]"
  by (rule reaches_matchAt [OF es6_default [OF assms]])

lemma requireNames_destructured:
  assumes "inner \<noteq> []" "CHR ''}'' \<notin> set inner" "w1 \<noteq> []" "list_all isSpace w1"
    and "list_all isSpace w2" "list_all isSpace w3" "list_all isSpace w4"
  shows "requireNames
      (''const'' @ w1 @ ''{'' @ inner @ ''}'' @ w2 @ ''='' @ w3 @ ''require'' @ w4 @ ''('' @ rest) =
     map (leftName colonRe) (splitOn CHR '','' inner)"
proof -
  from match_reaches [OF require_destructured [OF const_keyword assms]] obtain m where
    "match requireRe
      (''const'' @ w1 @ ''{'' @ inner @ ''}'' @ w2 @ ''='' @ w3 @ ''require'' @ w4 @ ''('' @ rest) = Some m"
    "groups m = [(2, inner)]" by blast
  with assms(1) show ?thesis
    by (simp add: requireNames_def group_def whenTruthy_def)
qed

lemma two_entries:
  assumes "isIdentifier A" "CHR '','' \<notin> set e2"
  shows "splitOn CHR '','' (('' '' @ A) @ CHR '','' # e2) = ['' '' @ A, e2]"
  using isIdentifier_chars(2) [OF assms(1)] assms(2)
  by (subst splitOn_append) (simp_all add: splitOn_none)

text \<open>
  C4 (the binder takes the left-hand name). For all names \<open>A\<close>, \<open>B\<close> and \<open>C\<close>, the
  named import \<open>import { A, B as C } from '...'\<close> adds exactly \<open>A\<close> and \<open>B\<close> (the
  name before \<open>as\<close>), and the destructured \<open>const { A, B: C } = require(...)\<close>
  adds exactly \<open>A\<close> and \<open>B\<close> (the key before the colon); the alias \<open>C\<close> is not
  added by either.
\<close>

theorem binder_left_names:
  "isIdentifier A \<and> isIdentifier B \<and> isIdentifier C \<and> (q = sq \<or> q = dq) \<longrightarrow>
     es6Names (''import { '' @ A @ '', '' @ B @ '' as '' @ C @ '' } from '' @ [q] @ path) = [A, B] \<and>
     requireNames (''const { '' @ A @ '', '' @ B @ '': '' @ C @ '' } = require('' @ args) = [A, B]"
proof (intro impI)
  assume a: "isIdentifier A \<and> isIdentifier B \<and> isIdentifier C \<and> (q = sq \<or> q = dq)"
  then have A: "isIdentifier A" and B: "isIdentifier B" and C: "isIdentifier C"
    and q: "q = sq \<or> q = dq" by simp_all
  note cA = isIdentifier_chars [OF A] and cB = isIdentifier_chars [OF B]
    and cC = isIdentifier_chars [OF C]
  let ?as = "'' '' @ (B @ '' '' @ ''as'' @ '' '' @ C) @ '' ''"
  let ?in1 = "('' '' @ A) @ CHR '','' # ?as"
  let ?co = "'' '' @ (B @ [] @ '':'' @ '' '' @ C) @ '' ''"
  let ?in2 = "('' '' @ A) @ CHR '','' # ?co"
  have e1: "splitOn CHR '','' ?in1 = ['' '' @ A, ?as]"
    using cB(2) cC(2) by (intro two_entries [OF A]) simp
  have e2: "splitOn CHR '','' ?in2 = ['' '' @ A, ?co]"
    using cB(2) cC(2) by (intro two_entries [OF A]) simp
  have n1: "leftName asRe ('' '' @ A @ []) = A" "leftName colonRe ('' '' @ A @ []) = A"
    by (rule leftName_plain [OF A space_facts(2,3)])+
  have n2: "leftName asRe ?as = B"
    by (rule leftName_as [OF B C space_facts(2,2,1,2,1,2)])
  have n3: "leftName colonRe ?co = B"
    by (rule leftName_colon [OF B C space_facts(2,2,3,2)])
  have b1: "?in1 \<noteq> []" "CHR ''}'' \<notin> set ?in1" "?in2 \<noteq> []" "CHR ''}'' \<notin> set ?in2"
    using cA(3) cB(3) cC(3) by simp_all
  have "es6Names (''import'' @ '' '' @ ''{'' @ ?in1 @ ''}'' @ '' '' @ ''from'' @ '' '' @ q # path) =
      map (leftName asRe) (splitOn CHR '','' ?in1)"
    by (rule es6Names_named [OF b1(1,2) space_facts(1,2,1,2,1,2) q])
  also have "\<dots> = [A, B]"
    unfolding e1 using n1(1) n2 by simp
  finally have 1: "es6Names (''import { '' @ A @ '', '' @ B @ '' as '' @ C @ '' } from '' @ [q] @ path)
      = [A, B]"
    by simp
  have "requireNames (''const'' @ '' '' @ ''{'' @ ?in2 @ ''}'' @ '' '' @ ''='' @ '' '' @
      ''require'' @ [] @ ''('' @ args) = map (leftName colonRe) (splitOn CHR '','' ?in2)"
    by (rule requireNames_destructured [OF b1(3,4) space_facts(1,2,2,2,3)])
  also have "\<dots> = [A, B]"
    unfolding e2 using n1(2) n3 by simp
  finally have 2: "requireNames (''const { '' @ A @ '', '' @ B @ '': '' @ C @ '' } = require('' @ args)
      = [A, B]"
    by simp
  from 1 2 show "es6Names (''import { '' @ A @ '', '' @ B @ '' as '' @ C @ '' } from '' @ [q] @ path) = [A, B] \<and>
     requireNames (''const { '' @ A @ '', '' @ B @ '': '' @ C @ '' } = require('' @ args) = [A, B]"
    by simp
qed

text \<open>C4 at the two lines of the claim, as whole texts.\<close>

theorem binder_left_names_witness:
  "getImportedModels ''import { A, B as C } from './models';'' = [''A'', ''B''] \<and>
   getImportedModels (''const { A, B: C } = require('' @ [dq] @ ''./models'' @ [dq] @ '');'')
     = [''A'', ''B''] \<and>
   es6Names ''import { A, B as C } from './models';'' = [''A'', ''B''] \<and>
   requireNames (''const { A, B: C } = require('' @ [dq] @ ''./models'' @ [dq] @ '');'')
     = [''A'', ''B'']"
proof -
  have id: "isIdentifier ''A'' \<and> isIdentifier ''B'' \<and> isIdentifier ''C'' \<and> (sq = sq \<or> sq = dq)"
    by (simp add: isIdentifier_def isWord_def wordChars_def)
  have 1: "getImportedModels ''import { A, B as C } from './models';'' = [''A'', ''B'']"
    by code_simp
  have 2: "getImportedModels (''const { A, B: C } = require('' @ [dq] @ ''./models'' @ [dq] @ '');'')
     = [''A'', ''B'']"
    by code_simp
  from binder_left_names [of "''A''" "''B''" "''C''" sq "''./models';''"
      "[dq] @ ''./models'' @ [dq] @ '');''", THEN mp, OF id] 1 2
  show ?thesis by simp
qed

section \<open>A binding anywhere in the line\<close>

lemma search_noMatchIn: "noMatchIn e b p r \<Longrightarrow> search e b (p @ r) = search e (rev p @ b) r"
  by (induction p arbitrary: b) simp_all

lemma es6Names_inside:
  assumes "isIdentifier X" "q = sq \<or> q = dq"
    and "noMatchIn es6ImportRe [] pre (''import '' @ X @ '' from '' @ [q] @ post)"
  shows "es6Names (pre @ ''import '' @ X @ '' from '' @ [q] @ post) = [X]"
proof -
  let ?body = "''import'' @ '' '' @ X @ '' '' @ ''from'' @ '' '' @ q # post"
  from es6Names_default [OF assms(1) space_facts(1,2,1,2,1,2) assms(2), of "rev pre" post]
  obtain m where m: "matchAt es6ImportRe (rev pre) ?body = Some m" "groups m = [(1, X)]"
    by blast
  from assms(3) have "noMatchIn es6ImportRe [] pre ?body" by simp
  from search_noMatchIn [OF this] search_here [OF m(1)]
  have "match es6ImportRe (pre @ ?body) = Some m" by (simp add: match_def)
  moreover have "pre @ ?body = pre @ ''import '' @ X @ '' from '' @ [q] @ post" by simp
  ultimately have "match es6ImportRe (pre @ ''import '' @ X @ '' from '' @ [q] @ post) = Some m"
    by (simp only:)
  with m(2) isIdentifier_ends(1) [OF assms(1)] show ?thesis
    by (simp add: es6Names_def group_def whenTruthy_def)
qed

lemma requireNames_inside:
  assumes "isIdentifier X"
    and "noMatchIn requireRe [] pre (''const '' @ X @ '' = require('' @ post)"
  shows "requireNames (pre @ ''const '' @ X @ '' = require('' @ post) = [X]"
proof -
  let ?body = "''const'' @ '' '' @ X @ '' '' @ ''='' @ '' '' @ ''require'' @ [] @ ''('' @ post"
  from reaches_matchAt [OF require_single [OF const_keyword assms(1) space_facts(1,2,2,2,3)],
      of "rev pre" post]
  obtain m where m: "matchAt requireRe (rev pre) ?body = Some m" "groups m = [(1, X)]"
    by blast
  from assms(2) have "noMatchIn requireRe [] pre ?body" by simp
  from search_noMatchIn [OF this] search_here [OF m(1)]
  have "match requireRe (pre @ ?body) = Some m" by (simp add: match_def)
  moreover have "pre @ ?body = pre @ ''const '' @ X @ '' = require('' @ post" by simp
  ultimately have "match requireRe (pre @ ''const '' @ X @ '' = require('' @ post) = Some m"
    by (simp only:)
  with m(2) isIdentifier_ends(1) [OF assms(1)] show ?thesis
    by (simp add: requireNames_def group_def whenTruthy_def)
qed

text \<open>
  C10 (the patterns are not anchored), amended. On a line that the binder does not skip
  as a comment, a substring \<open>import X from '\<close> or \<open>const X = require(\<close> anywhere
  in the line binds \<open>X\<close>, and no diagnostic reports \<open>X\<close> in the whole file, provided
  no match of the same pattern starts earlier in that line: of several imports (or
  several requires) in one line only the leftmost binds.
\<close>

theorem unanchored_binding:
  assumes "k < length (splitOn newline text)"
    and "\<not> commentSkips False (splitOn newline text) ! k"
    and "isIdentifier X"
    and "(\<exists>pre q post. splitOn newline text ! k = pre @ ''import '' @ X @ '' from '' @ [q] @ post \<and>
            (q = sq \<or> q = dq) \<and>
            noMatchIn es6ImportRe [] pre (''import '' @ X @ '' from '' @ [q] @ post)) \<or>
         (\<exists>pre post. splitOn newline text ! k = pre @ ''const '' @ X @ '' = require('' @ post \<and>
            noMatchIn requireRe [] pre (''const '' @ X @ '' = require('' @ post))"
  shows "X \<in> set (getImportedModels text) \<and>
         X \<notin> uModelName ` set (unresolvedUsages text ms)"
proof -
  let ?line = "splitOn newline text ! k"
  from assms(4) consider
    (import) pre q post where "?line = pre @ ''import '' @ X @ '' from '' @ [q] @ post"
      "q = sq \<or> q = dq"
      "noMatchIn es6ImportRe [] pre (''import '' @ X @ '' from '' @ [q] @ post)"
  | (require) pre post where "?line = pre @ ''const '' @ X @ '' = require('' @ post"
      "noMatchIn requireRe [] pre (''const '' @ X @ '' = require('' @ post)"
    by blast
  then have "X \<in> boundOnLine ?line"
  proof cases
    case import
    note line = import(1) and q = import(2) and first = import(3)
    from es6Names_inside [OF assms(3) q first] have "es6Names ?line = [X]"
      by (simp only: line)
    then show ?thesis by (simp add: boundOnLine_def)
  next
    case require
    note line = require(1) and first = require(2)
    from requireNames_inside [OF assms(3) first] have "requireNames ?line = [X]"
      by (simp only: line)
    then show ?thesis by (simp add: boundOnLine_def)
  qed
  with assms(1,2) have "X \<in> set (getImportedModels text)"
    by (auto simp: getImportedModels_bound)
  then show ?thesis by (auto simp: unresolvedUsages_def)
qed

lemma twoImports_imported: "getImportedModels twoImports = [''A'']"
  by code_simp

lemma twoImports_usages:
  "map uModelName (unresolvedUsages twoImports defaultMethods) = [''B'']"
  by code_simp

lemma twoImports_line:
  "splitOn newline twoImports ! 0 =
     ''import A from 'a'; '' @ ''import '' @ ''B'' @ '' from '' @ [sq] @ ''b';''"
  by code_simp

text \<open>
  C10 as stated binds the name of every such substring. The second import of line 0 of
  \<open>twoImports\<close> is one, on a line that is not a comment; \<open>B\<close> is not bound, and its
  use on line 1 is reported.
\<close>

theorem second_import_unbound:
  "splitOn newline twoImports ! 0 =
     ''import A from 'a'; '' @ ''import '' @ ''B'' @ '' from '' @ [sq] @ ''b';'' \<and>
   \<not> commentSkips False (splitOn newline twoImports) ! 0 \<and>
   ''B'' \<notin> set (getImportedModels twoImports) \<and>
   map uModelName (unresolvedUsages twoImports defaultMethods) = [''B'']"
proof -
  have "\<not> commentSkips False (splitOn newline twoImports) ! 0" by code_simp
  with twoImports_line twoImports_imported twoImports_usages show ?thesis by simp
qed

lemma importInString_line:
  "splitOn newline importInString ! 1 =
     (''log('' @ [dq]) @ ''import '' @ ''Ghost'' @ '' from '' @ [sq] @ (''m' '' @ [dq] @ '');'')"
  by code_simp

text \<open>
  C10 at \<open>importInString\<close>: the import stands inside a string literal on line 1, and
  the use of \<open>Ghost\<close> on line 0 is not reported.
\<close>

theorem unanchored_binding_witness:
  "map uModelName (findModelMethodUsages importInString defaultMethods) = [''Ghost''] \<and>
   splitOn newline importInString ! 1 =
     (''log('' @ [dq]) @ ''import '' @ ''Ghost'' @ '' from '' @ [sq] @ (''m' '' @ [dq] @ '');'') \<and>
   ''Ghost'' \<in> set (getImportedModels importInString) \<and>
   ''Ghost'' \<notin> uModelName ` set (unresolvedUsages importInString defaultMethods)"
proof -
  have 1: "1 < length (splitOn newline importInString)" by code_simp
  have 2: "\<not> commentSkips False (splitOn newline importInString) ! 1" by code_simp
  have 3: "isIdentifier ''Ghost''"
    by (simp add: isIdentifier_def isWord_def wordChars_def)
  have 4: "noMatchIn es6ImportRe [] (''log('' @ [dq])
      (''import '' @ ''Ghost'' @ '' from '' @ [sq] @ (''m' '' @ [dq] @ '');''))"
    by code_simp
  from importInString_line 4
  have 5: "(\<exists>pre q post. splitOn newline importInString ! 1 =
              pre @ ''import '' @ ''Ghost'' @ '' from '' @ [q] @ post \<and>
            (q = sq \<or> q = dq) \<and>
            noMatchIn es6ImportRe [] pre (''import '' @ ''Ghost'' @ '' from '' @ [q] @ post)) \<or>
         (\<exists>pre post. splitOn newline importInString ! 1 =
              pre @ ''const '' @ ''Ghost'' @ '' = require('' @ post \<and>
            noMatchIn requireRe [] pre (''const '' @ ''Ghost'' @ '' = require('' @ post))"
    by blast
  have 6: "map uModelName (findModelMethodUsages importInString defaultMethods) = [''Ghost'']"
    by code_simp
  from unanchored_binding [OF 1 2 3 5, of defaultMethods] importInString_line 6
  show ?thesis by simp
qed

section \<open>The binder on the five forms\<close>




















text \<open>
  A form that stands at the start of its line, after the indentation, is the first on
  the line, and the line does not start with \<open>//\<close>.
\<close>

lemma not_inside_indentation:
  assumes "K \<noteq> []" "\<not> isSpace (hd K)"
  shows "list_all isSpace indent \<Longrightarrow> \<not> startsInside K indent r"
proof (induction indent)
  case Nil
  then show ?case by simp
next
  case (Cons c p)
  from assms obtain x xs where "K = x # xs" "\<not> isSpace x" by (cases K) auto
  with Cons show ?case by (auto simp: startsWith_def)
qed

lemma formText_head:
  assumes "formOk s"
  shows "\<exists>c t. formText s = c # t \<and> \<not> isSpace c \<and> c \<noteq> CHR ''/''"
  using assms by (cases s) (auto simp: isSpace_def)

lemma trim_head:
  assumes "list_all isSpace u" "\<not> isSpace c"
  shows "\<exists>t'. trim (u @ c # t) = c # t'"
proof -
  from assms have "dropWhile isSpace (u @ c # t) = c # t"
    by (simp add: dropWhile_all)
  moreover from assms(2) have "dropWhile isSpace (rev t @ [c]) = dropWhile isSpace (rev t) @ [c]"
    by (simp add: dropWhile_append3)
  ultimately show ?thesis by (simp add: trim_def)
qed

lemma indented_form:
  assumes "formOk s" "list_all isSpace indent"
  shows "list_all (\<lambda>K. \<not> startsInside K indent (formText s @ rest)) (formKeywords s)"
    and "\<not> startsWith ''//'' (trim (indent @ formText s @ rest))"
proof -
  have "\<not> startsInside K indent (formText s @ rest)"
    if "K \<in> set [''import'', ''const'', ''let'', ''var'']" for K
  proof (rule not_inside_indentation [OF _ _ assms(2)])
    from that show "K \<noteq> []" "\<not> isSpace (hd K)" by (auto simp: isSpace_def)
  qed
  moreover have "set (formKeywords s) \<subseteq> set [''import'', ''const'', ''let'', ''var'']"
    by (cases s) simp_all
  ultimately show "list_all (\<lambda>K. \<not> startsInside K indent (formText s @ rest)) (formKeywords s)"
    unfolding list_all_iff by blast
  from formText_head [OF assms(1)] obtain c t where
    c: "formText s = c # t" "\<not> isSpace c" "c \<noteq> CHR ''/''" by blast
  from trim_head [OF assms(2) c(2), of "t @ rest"] obtain t' where
    "trim (indent @ c # t @ rest) = c # t'" by blast
  with c(1,3) show "\<not> startsWith ''//'' (trim (indent @ formText s @ rest))"
    by (simp add: startsWith_def)
qed







section \<open>The partial operations of the source are defined where it uses them\<close>

lemma splitLoop_pieces: "splitLoop e piece b r \<noteq> []"
  by (induction e piece b r rule: splitLoop.induct) (auto split: option.splits)

lemma leftName_defined: "splitRe asRe s \<noteq> [] \<and> splitRe colonRe s \<noteq> []"
proof -
  have "matchAt asRe [] [] = None" "matchAt colonRe [] [] = None"
    by (simp_all add: matchAt_def asRe_def colonRe_def run_def startsWith_def)
  then show ?thesis by (simp add: splitRe_def splitLoop_pieces)
qed

lemma modelMethodRegex_method:
  assumes "(b', r', c') \<in> set (matches (modelMethodRegex ms) (b, r, []))"
  shows "\<exists>t. map_of c' 2 = Some t"
proof -
  let ?name = "Seq (Cls (OneOf upperChars)) (Star (OneOf wordChars))"
  let ?methods = "Grp 2 (alt (map Lit ms))"
  have re: "modelMethodRegex ms =
      Seq WordB (Seq (Grp 1 ?name) (Seq (Lit ''.'') (Seq ?methods WordB)))"
    by (simp add: modelMethodRegex_def)
  from assms have "(b', r', c') \<in> set (matches
      (Seq WordB (Seq (Grp 1 ?name) (Seq (Lit ''.'') (Seq ?methods WordB)))) (b, r, []))"
    by (simp only: re)
  from this [THEN in_matches_Seq [THEN iffD1]] obtain st0 where
    "(b', r', c') \<in> set (matches (Seq (Grp 1 ?name) (Seq (Lit ''.'') (Seq ?methods WordB))) st0)"
    by blast
  from this [THEN in_matches_Seq [THEN iffD1]] obtain st1 where
    "(b', r', c') \<in> set (matches (Seq (Lit ''.'') (Seq ?methods WordB)) st1)"
    by blast
  from this [THEN in_matches_Seq [THEN iffD1]] obtain st2 where
    "(b', r', c') \<in> set (matches (Seq ?methods WordB) st2)"
    by blast
  from this [THEN in_matches_Seq [THEN iffD1]] obtain st3 where
    3: "st3 \<in> set (matches ?methods st2)" and 4: "(b', r', c') \<in> set (matches WordB st3)"
    by blast
  obtain b2 r2 c2 where "st2 = (b2, r2, c2)" by (cases st2)
  with 3 in_matches_Grp [of st3 2 "alt (map Lit ms)" b2 r2 c2]
  obtain b3 r3 c3 t where "st3 = (b3, r3, (2, t) # c3)" by blast
  with in_matches_WordB [OF 4] show ?thesis by simp
qed

lemma usage_groups_defined:
  assumes "search (modelMethodRegex ms) b r = Some m"
  shows "group m 1 \<noteq> None \<and> group m 2 \<noteq> None"
proof -
  from search_matchAt [OF assms] obtain p s where
    at: "matchAt (modelMethodRegex ms) (rev p @ b) s = Some m" by blast
  then obtain b' r' c' rest where
    ms: "matches (modelMethodRegex ms) (rev p @ b, s, []) = (b', r', c') # rest" and
    m: "groups m = c'"
    by (auto simp: matchAt_def split: list.splits)
  from ms have "(b', r', c') \<in> set (matches (modelMethodRegex ms) (rev p @ b, s, []))" by simp
  from modelMethodRegex_method [OF this] matchAt_modelMethodRegex [OF at] m
  show ?thesis by (auto simp: group_def)
qed

section \<open>One line of each form\<close>

lemma binder_forms:
  "boundOnLine ''import User from './models/User';'' = {''User''}"
  "boundOnLine ''import { User, Product as P } from './models';'' = {''User'', ''Product''}"
  "boundOnLine ''import * as Models from './models';'' = {''Models''}"
  "boundOnLine ''let User = require('./models/User');'' = {''User''}"
  "boundOnLine ''var { User, Product: P } = require('./models');'' = {''User'', ''Product''}"
  by code_simp+

lemma extract_empty_name: "extractModelName (notImportedMessage []) = None"
  by code_simp

end
